theory Spec2Isabelle
  imports Main "HOL-Library.Word"
begin

unbundle bit_operations_syntax

section \<open>The PUP container decoder (src/orbital/software/pup.cpp)\<close>

subsection \<open>Data model\<close>

type_synonym byte = "8 word"
type_synonym Buffer = "byte list"

text \<open>
  Every way the decoder can stop without a value.
  \<^item> \<open>FormatError\<close>, \<open>UnsupportedFeatureError\<close>: a failed header assertion of the
    constructor.
  \<^item> \<open>Unimplemented\<close>: \<^verbatim>\<open>throw std::runtime_error("Unimplemented")\<close>.
  \<^item> \<open>NotFoundError\<close>: \<^verbatim>\<open>throw std::out_of_range("PUP segment not found")\<close>.
  \<^item> \<open>LengthError\<close>: a \<^verbatim>\<open>resize\<close> to a wrapped-around size.
  \<^item> \<open>StreamError\<close>: a read past the end of a stream.
  \<^item> \<open>MemoryFault\<close>: an access outside a buffer, which C++ leaves undefined.
\<close>

datatype error =
    FormatError
  | UnsupportedFeatureError
  | Unimplemented
  | NotFoundError
  | LengthError
  | StreamError
  | MemoryFault

text \<open>
  Modelled from the spec: the structures of pup.h, which is not part of the sources.
  The fields are the ones the decoder reads; the accessors of a segment entry
  (\<^verbatim>\<open>id()\<close>, \<^verbatim>\<open>is_info()\<close>, \<^verbatim>\<open>block_size()\<close>, ...) are fields of
  the record. Identifiers, offsets and sizes are unsigned machine integers, kept as
  \<open>nat\<close> with the wrap-around written out where the decoder computes with them; the
  width of an extent's fields is the type parameter \<open>'w\<close>.
\<close>

record PupHeader =
  magic :: "32 word"
  version :: nat
  mode :: nat
  endian :: nat
  attr :: nat
  flags :: nat
  hdr_size :: nat
  meta_size :: nat

record PupHeaderEx =
  segment_count :: nat

record PupSegmentEntry =
  entry_id :: nat
  is_info :: bool
  is_encrypted :: bool
  is_signed :: bool
  is_compressed :: bool
  has_blocks :: bool
  has_digests :: bool
  has_extents :: bool
  entry_offset :: nat
  file_size :: nat
  block_size :: nat
  block_count :: nat

record PupSegmentMeta =
  data_key :: Buffer
  data_iv :: Buffer

record (overloaded) 'w PupExtent =
  extent_offset :: "'w word"
  extent_size :: "'w word"

definition PUP_MAGIC :: "32 word" where
  "PUP_MAGIC = 0x1D3D154F"

definition LITTLE :: nat where
  "LITTLE = 1"

definition JIG :: nat where
  "JIG = 1"

text \<open>
  Modelled from the spec: the seekable byte stream (\<^verbatim>\<open>Stream\<close>, and
  \<^verbatim>\<open>BufferStream\<close> over a buffer), which is not part of the sources. It has
  \<open>seek(offset)\<close> and \<open>read(n)\<close>; a read that would pass the end of the contents
  fails with \<open>StreamError\<close>.
\<close>

record Stream =
  contents :: Buffer
  position :: nat

definition stream_seek :: "Stream \<Rightarrow> nat \<Rightarrow> Stream" where
  "stream_seek st off = st\<lparr>position := off\<rparr>"

definition stream_read :: "Stream \<Rightarrow> nat \<Rightarrow> error + (Buffer \<times> Stream)" where
  "stream_read st n =
     (if position st + n \<le> length (contents st)
      then Inr (take n (drop (position st) (contents st)), st\<lparr>position := position st + n\<rparr>)
      else Inl StreamError)"

text \<open>
  The members of \<^verbatim>\<open>PupParser\<close>; \<open>strm\<close> is the member \<^verbatim>\<open>s\<close>, the
  stream the parser reads from.
\<close>

record PupParser =
  header :: PupHeader
  headerEx :: PupHeaderEx
  segEntries :: "PupSegmentEntry list"
  segMetas :: "PupSegmentMeta list"
  strm :: Stream

subsection \<open>What the decoder takes from outside\<close>

text \<open>
  The byte layouts of pup.h (a \<^verbatim>\<open>sizeof\<close> and a decoder for each structure that
  \<^verbatim>\<open>read_t\<close> or \<^verbatim>\<open>reinterpret_cast\<close> produces), the key vault
  \<^verbatim>\<open>ps4Crypto()\<close>, the two Botan cipher objects of \<^verbatim>\<open>pup_decrypt\<close>, zlib's
  \<^verbatim>\<open>uncompress\<close>, and the contents of the two uninitialised stack arrays of
  \<^verbatim>\<open>pup_decrypt\<close> are parameters of the model.
  \<^item> \<open>crypto_decrypt_named name buf\<close> is \<^verbatim>\<open>crypto.decrypt(buf, len, crypto.get(name))\<close>.
  \<^item> \<open>cbc_nopad_decrypt key iv msg\<close> is the output of one message through
    \<^verbatim>\<open>get_cipher("AES-128/CBC/NoPadding", key, iv, DECRYPTION)\<close>.
  \<^item> \<open>cbc_encrypt key msg\<close> is the output of one message through
    \<^verbatim>\<open>get_cipher("AES-128/CBC", key, ENCRYPTION)\<close>, which is given no IV.
  \<^item> \<open>uncompress src srcLen dstLen\<close> is zlib's return code and the bytes it wrote.
  \<^item> \<open>stack_prev_block\<close> and \<open>stack_next_block\<close> are what the stack holds where
    \<^verbatim>\<open>pup_decrypt\<close> places its two arrays; they can differ from one call to the next.
\<close>

record (overloaded) 'w Extern =
  sizeof_PupHeader :: nat
  as_PupHeader :: "Buffer \<Rightarrow> PupHeader"
  sizeof_PupHeaderEx :: nat
  as_PupHeaderEx :: "Buffer \<Rightarrow> PupHeaderEx"
  sizeof_PupSegmentEntry :: nat
  as_PupSegmentEntry :: "Buffer \<Rightarrow> PupSegmentEntry"
  sizeof_PupSegmentMeta :: nat
  as_PupSegmentMeta :: "Buffer \<Rightarrow> PupSegmentMeta"
  sizeof_PupDigest :: nat
  sizeof_PupExtent :: nat
  as_PupExtent :: "Buffer \<Rightarrow> 'w PupExtent"
  crypto_decrypt_named :: "string \<Rightarrow> Buffer \<Rightarrow> Buffer"
  cbc_nopad_decrypt :: "Buffer \<Rightarrow> Buffer \<Rightarrow> Buffer \<Rightarrow> Buffer"
  cbc_encrypt :: "Buffer \<Rightarrow> Buffer \<Rightarrow> Buffer"
  uncompress :: "Buffer \<Rightarrow> nat \<Rightarrow> nat \<Rightarrow> int \<times> Buffer"
  stack_prev_block :: Buffer
  stack_next_block :: Buffer

subsection \<open>Buffers\<close>

text \<open>
  \<open>written out n dest\<close>: a primitive produced \<open>out\<close> and at most \<open>n\<close> bytes of it are
  stored at the start of \<open>dest\<close>; the rest of \<open>dest\<close> keeps its bytes.
\<close>

definition written :: "Buffer \<Rightarrow> nat \<Rightarrow> Buffer \<Rightarrow> Buffer" where
  "written out n dest = take (min n (length dest)) out @ drop (length (take (min n (length dest)) out)) dest"

text \<open>An array of \<open>n\<close> bytes holding \<open>xs\<close>, cut or zero-filled to that size.\<close>

definition array_of :: "nat \<Rightarrow> Buffer \<Rightarrow> Buffer" where
  "array_of n xs = take n xs @ replicate (n - length xs) 0"

text \<open>\<^verbatim>\<open>v[i]\<close> on a vector: outside the vector it is a memory fault.\<close>

definition at :: "'a list \<Rightarrow> nat \<Rightarrow> error + 'a" where
  "at xs i = (if i < length xs then Inr (xs ! i) else Inl MemoryFault)"

text \<open>
  \<open>read_array err dec sz buf off n\<close>: \<open>n\<close> consecutive records of \<open>sz\<close> bytes decoded
  from \<open>buf\<close> starting at byte \<open>off\<close>, in order; a record that does not lie within the
  buffer stops the loop with \<open>err\<close>.
\<close>

fun read_array :: "error \<Rightarrow> (Buffer \<Rightarrow> 'a) \<Rightarrow> nat \<Rightarrow> Buffer \<Rightarrow> nat \<Rightarrow> nat \<Rightarrow> error + 'a list" where
  "read_array err dec sz buf off 0 = Inr []"
| "read_array err dec sz buf off (Suc n) =
     (if off + sz \<le> length buf then
        (case read_array err dec sz buf (off + sz) n of
           Inl e \<Rightarrow> Inl e
         | Inr xs \<Rightarrow> Inr (dec (take sz (drop off buf)) # xs))
      else Inl err)"

subsection \<open>Segment lookup\<close>

text \<open>
  \<^verbatim>\<open>PupParser::find(pred)\<close>: the loop runs \<open>i\<close> from 0 while
  \<open>i < headerEx.segment_count\<close> and indexes both vectors with \<open>i\<close>; an index outside a
  vector is a memory fault.
\<close>

function find_loop ::
  "(PupSegmentEntry \<Rightarrow> PupSegmentMeta \<Rightarrow> bool) \<Rightarrow> PupParser \<Rightarrow> nat \<Rightarrow> error + nat" where
  "find_loop pred p i =
     (if i < segment_count (headerEx p) then
        (if length (segEntries p) \<le> i \<or> length (segMetas p) \<le> i then Inl MemoryFault
         else if pred (segEntries p ! i) (segMetas p ! i) then Inr i
         else find_loop pred p (i + 1))
      else Inl NotFoundError)"
  by pat_completeness auto
termination
  by (relation "measure (\<lambda>(pred, p, i). segment_count (headerEx p) - i)") auto

declare find_loop.simps [simp del]

definition find_pred ::
  "(PupSegmentEntry \<Rightarrow> PupSegmentMeta \<Rightarrow> bool) \<Rightarrow> PupParser \<Rightarrow> error + nat" where
  "find_pred pred p = find_loop pred p 0"

definition find_id :: "PupParser \<Rightarrow> nat \<Rightarrow> error + nat" where
  "find_id p i = find_pred (\<lambda>entry meta. entry_id entry = i \<and> \<not> is_info entry) p"

definition find_info :: "PupParser \<Rightarrow> nat \<Rightarrow> error + nat" where
  "find_info p i = find_pred (\<lambda>entry meta. entry_id entry = i \<and> is_info entry) p"

text \<open>The invariant the constructor establishes: both vectors have \<open>segment_count\<close> elements.\<close>

definition table_ok :: "PupParser \<Rightarrow> bool" where
  "table_ok p \<longleftrightarrow>
     length (segEntries p) = segment_count (headerEx p) \<and>
     length (segMetas p) = segment_count (headerEx p)"

subsection \<open>Construction\<close>

text \<open>
  Modelled from the spec: the \<^verbatim>\<open>assert\<close> macro, which pup.cpp uses with one and with
  two arguments and which is not part of the sources. A failed assertion on magic, version,
  mode, endian or attr is a \<open>FormatError\<close>, a failed assertion on the JIG flag an
  \<open>UnsupportedFeatureError\<close>. The order of the assertions is the constructor's.
\<close>

definition check_header :: "PupHeader \<Rightarrow> error + unit" where
  "check_header h =
     (if magic h \<noteq> PUP_MAGIC then Inl FormatError
      else if version h \<noteq> 0 then Inl FormatError
      else if mode h \<noteq> 1 then Inl FormatError
      else if endian h \<noteq> LITTLE then Inl FormatError
      else if attr h \<noteq> 0x12 then Inl FormatError
      else if flags h AND JIG \<noteq> 0 then Inl UnsupportedFeatureError
      else Inr ())"

text \<open>
  "Decrypt and cache header": the buffer is resized to \<open>hdr_size - sizeof(PupHeader)\<close>
  (a \<^verbatim>\<open>size_t\<close> difference: if it wraps around, the resize throws), filled from the
  stream, decrypted in place with the key "pup.hdr", and read as a \<open>PupHeaderEx\<close>
  followed by \<open>segment_count\<close> entries.
\<close>

definition load_entries ::
  "'w::len Extern \<Rightarrow> PupHeader \<Rightarrow> Stream \<Rightarrow> error + (PupHeaderEx \<times> PupSegmentEntry list \<times> Stream)" where
  "load_entries X h st =
     (if hdr_size h < sizeof_PupHeader X then Inl LengthError
      else case stream_read st (hdr_size h - sizeof_PupHeader X) of
        Inl e \<Rightarrow> Inl e
      | Inr (raw, st') \<Rightarrow>
          (let buffer = written (crypto_decrypt_named X ''pup.hdr'' raw) (length raw) raw in
           if length buffer < sizeof_PupHeaderEx X \<or> buffer = [] then Inl MemoryFault
           else
             (let hx = as_PupHeaderEx X (take (sizeof_PupHeaderEx X) buffer) in
              case read_array MemoryFault (as_PupSegmentEntry X) (sizeof_PupSegmentEntry X)
                     buffer (sizeof_PupHeaderEx X) (segment_count hx) of
                Inl e \<Rightarrow> Inl e
              | Inr entries \<Rightarrow> Inr (hx, entries, st'))))"

text \<open>
  "Decrypt and cache meta": \<open>meta_size\<close> bytes, decrypted in place with the key
  "pup.root_key", read as \<open>segment_count\<close> meta records.
\<close>

definition load_metas ::
  "'w::len Extern \<Rightarrow> PupHeader \<Rightarrow> PupHeaderEx \<Rightarrow> Stream \<Rightarrow> error + (PupSegmentMeta list \<times> Stream)" where
  "load_metas X h hx st =
     (case stream_read st (meta_size h) of
        Inl e \<Rightarrow> Inl e
      | Inr (raw, st') \<Rightarrow>
          (let buffer = written (crypto_decrypt_named X ''pup.root_key'' raw) (length raw) raw in
           case read_array MemoryFault (as_PupSegmentMeta X) (sizeof_PupSegmentMeta X)
                  buffer 0 (segment_count hx) of
             Inl e \<Rightarrow> Inl e
           | Inr metas \<Rightarrow> Inr (metas, st')))"

text \<open>\<^verbatim>\<open>PupParser::PupParser(Stream& s, bool verify)\<close>.\<close>

definition PupParser_new :: "'w::len Extern \<Rightarrow> Stream \<Rightarrow> bool \<Rightarrow> error + PupParser" where
  "PupParser_new X st verify =
     (case stream_read (stream_seek st 0) (sizeof_PupHeader X) of
        Inl e \<Rightarrow> Inl e
      | Inr (raw, st1) \<Rightarrow>
          (let h = as_PupHeader X raw in
           case check_header h of
             Inl e \<Rightarrow> Inl e
           | Inr _ \<Rightarrow>
               (case load_entries X h st1 of
                  Inl e \<Rightarrow> Inl e
                | Inr (hx, entries, st2) \<Rightarrow>
                    (case load_metas X h hx st2 of
                       Inl e \<Rightarrow> Inl e
                     | Inr (metas, st3) \<Rightarrow>
                         if verify then Inl Unimplemented
                         else Inr \<lparr>header = h, headerEx = hx, segEntries = entries,
                                   segMetas = metas, strm = st3\<rparr>))))"

text \<open>
  For stating what the constructor stores: the decrypted header-extension block and the
  decrypted metadata block of an archive, as functions of the stream's contents. The first
  lies between \<open>sizeof(PupHeader)\<close> and \<open>hdr_size\<close>, the second in the
  \<open>meta_size\<close> bytes from \<open>hdr_size\<close> on.
\<close>

definition ext_block :: "'w::len Extern \<Rightarrow> Stream \<Rightarrow> Buffer" where
  "ext_block X st =
     (let h = as_PupHeader X (take (sizeof_PupHeader X) (contents st));
          raw = take (hdr_size h - sizeof_PupHeader X) (drop (sizeof_PupHeader X) (contents st))
      in written (crypto_decrypt_named X ''pup.hdr'' raw) (length raw) raw)"

definition meta_block :: "'w::len Extern \<Rightarrow> Stream \<Rightarrow> Buffer" where
  "meta_block X st =
     (let h = as_PupHeader X (take (sizeof_PupHeader X) (contents st));
          raw = take (meta_size h) (drop (hdr_size h) (contents st))
      in written (crypto_decrypt_named X ''pup.root_key'' raw) (length raw) raw)"

subsection \<open>Block decryption\<close>

text \<open>
  \<^verbatim>\<open>pup_decrypt(buffer, meta)\<close>. \<open>buffer.size() & ~0xF\<close> is the length rounded down
  to a multiple of 16 and \<open>buffer.size() & 0xF\<close> the remainder. \<open>prev_block\<close> is copied
  from the buffer before the decryption only if there is a remainder and at least one whole
  block; otherwise the array keeps what the stack held. The decrypting pipe is read back
  into the first \<open>size_aligned\<close> bytes of the buffer; with a remainder, the first 16 bytes
  of the encrypting pipe's output for \<open>prev_block\<close> are read into \<open>next_block\<close> and
  XORed onto the bytes after the aligned part.
\<close>

definition pup_decrypt :: "'w::len Extern \<Rightarrow> Buffer \<Rightarrow> PupSegmentMeta \<Rightarrow> Buffer" where
  "pup_decrypt X buffer meta =
     (let key = data_key meta;
          iv = data_iv meta;
          size_aligned = length buffer - length buffer mod 16;
          overflow = length buffer mod 16;
          prev_block = (if overflow \<noteq> 0 \<and> 16 \<le> size_aligned
                        then take 16 (drop (size_aligned - 16) buffer)
                        else array_of 16 (stack_prev_block X));
          buffer1 = written (cbc_nopad_decrypt X key iv (take size_aligned buffer)) size_aligned buffer
      in if overflow \<noteq> 0 then
           (let next_block = written (cbc_encrypt X key prev_block) 16
                               (array_of 16 (stack_next_block X))
            in take size_aligned buffer1 @ map2 (XOR) (drop size_aligned buffer1) next_block)
         else buffer1)"

text \<open>
  The Block Decryptor as the specification words it (4.4), to compare \<open>pup_decrypt\<close>
  with: the buffer is split into the aligned prefix and the tail; the prefix is decrypted
  with the CBC cipher without padding; with a non-empty tail, the last 16 bytes of the
  prefix as they were before the decryption are encrypted with the CBC cipher under the
  same key, and the first \<open>tail_len\<close> bytes of the first 16 bytes of the result are
  XORed onto the tail.
\<close>

definition block_decryptor :: "'w::len Extern \<Rightarrow> Buffer \<Rightarrow> Buffer \<Rightarrow> Buffer \<Rightarrow> Buffer" where
  "block_decryptor X buffer key iv =
     (let tail_len = length buffer mod 16;
          prefix = take (length buffer - tail_len) buffer;
          tail = drop (length buffer - tail_len) buffer;
          plain = cbc_nopad_decrypt X key iv prefix
      in if tail_len = 0 then plain
         else (let captured = drop (length prefix - 16) prefix;
                   keystream = take 16 (cbc_encrypt X key captured)
               in plain @ map2 (XOR) tail (take tail_len keystream)))"

text \<open>
  Modelled from the spec: \<^verbatim>\<open>crypto.decrypt(buf, len, key)\<close> of the key vault
  \<^verbatim>\<open>ps4Crypto()\<close> for a key \<^verbatim>\<open>Key(Key::AES_128_CBC, key, 16, iv, 16)\<close>, which
  is not part of the sources. The specification words the one call of it in
  \<^verbatim>\<open>get_blocked\<close> as "run Block Decryptor on the raw block using the target segment's
  key/IV" (4.6, step 9): the result of the Block Decryptor of 4.4 is stored in the buffer,
  whose length the call cannot change.
\<close>

definition crypto_decrypt_cbc :: "'w::len Extern \<Rightarrow> Buffer \<Rightarrow> Buffer \<Rightarrow> Buffer \<Rightarrow> Buffer" where
  "crypto_decrypt_cbc X key iv buf = written (block_decryptor X buf key iv) (length buf) buf"

text \<open>
  The decryption of a target block in \<^verbatim>\<open>get_blocked\<close>: if the entry is encrypted,
  \<^verbatim>\<open>crypto.decrypt\<close> on the whole block with a key made of the target's key and IV.
\<close>

definition decrypt_block :: "'w::len Extern \<Rightarrow> PupSegmentEntry \<Rightarrow> PupSegmentMeta \<Rightarrow> Buffer \<Rightarrow> Buffer" where
  "decrypt_block X entry meta block =
     (if is_encrypted entry then crypto_decrypt_cbc X (data_key meta) (data_iv meta) block
      else block)"

text \<open>
  What is assumed of the two cipher objects where a statement needs it: the cipher without
  padding returns as many bytes as it is given when they are whole blocks, and the
  encrypting cipher returns at least one block for one block of input.
\<close>

definition cipher_lengths :: "'w::len Extern \<Rightarrow> bool" where
  "cipher_lengths X \<longleftrightarrow>
     (\<forall>key iv msg. length msg mod 16 = 0 \<longrightarrow> length (cbc_nopad_decrypt X key iv msg) = length msg) \<and>
     (\<forall>key msg. length msg = 16 \<longrightarrow> 16 \<le> length (cbc_encrypt X key msg))"

subsection \<open>Extraction\<close>

text \<open>
  A member function that may throw and may move the stream: it takes the parser object and
  returns the value or the error together with the parser object afterwards.
\<close>

type_synonym 'a action = "PupParser \<Rightarrow> (error + 'a) \<times> PupParser"

definition returns :: "'a \<Rightarrow> 'a action" where
  "returns x = (\<lambda>p. (Inr x, p))"

definition throws :: "error \<Rightarrow> 'a action" where
  "throws e = (\<lambda>p. (Inl e, p))"

definition lift :: "error + 'a \<Rightarrow> 'a action" where
  "lift r = (\<lambda>p. (r, p))"

definition and_then :: "'a action \<Rightarrow> ('a \<Rightarrow> 'b action) \<Rightarrow> 'b action" where
  "and_then m f = (\<lambda>p. case m p of (Inl e, p') \<Rightarrow> (Inl e, p') | (Inr x, p') \<Rightarrow> f x p')"

definition s_seek :: "nat \<Rightarrow> unit action" where
  "s_seek off = (\<lambda>p. (Inr (), p\<lparr>strm := stream_seek (strm p) off\<rparr>))"

definition s_read :: "nat \<Rightarrow> Buffer action" where
  "s_read n = (\<lambda>p. case stream_read (strm p) n of
                      Inl e \<Rightarrow> (Inl e, p)
                    | Inr (b, st) \<Rightarrow> (Inr b, p\<lparr>strm := st\<rparr>))"

text \<open>\<open>(extent.size & ~0xF) - (extent.size & 0xF)\<close>, in the width of \<open>extent.size\<close>.\<close>

definition cur_zsize :: "'w::len word \<Rightarrow> 'w word" where
  "cur_zsize sz = (sz AND NOT 0xF) - (sz AND 0xF)"

text \<open>
  The digest and extent tables of an info segment, read one after the other from a
  \<^verbatim>\<open>BufferStream\<close> over the info buffer. A digest is kept as its bytes.
\<close>

definition read_info ::
  "'w::len Extern \<Rightarrow> PupSegmentEntry \<Rightarrow> nat \<Rightarrow> Buffer \<Rightarrow> error + (Buffer list \<times> 'w PupExtent list)" where
  "read_info X info_entry count info_buffer =
     (case (if has_digests info_entry
            then read_array StreamError (\<lambda>b. b) (sizeof_PupDigest X) info_buffer 0 count
            else Inr []) of
        Inl e \<Rightarrow> Inl e
      | Inr digests \<Rightarrow>
          (case (if has_extents info_entry
                 then read_array StreamError (as_PupExtent X) (sizeof_PupExtent X) info_buffer
                        (length digests * sizeof_PupDigest X) count
                 else Inr []) of
             Inl e \<Rightarrow> Inl e
           | Inr extents \<Rightarrow> Inr (digests, extents)))"

text \<open>
  "Process target segment": the loop over the extents, with \<open>left_size\<close> and the output
  \<open>segment\<close> so far. The block is read from \<open>entry.offset + extent.offset\<close> (a 64-bit
  sum) and decrypted if the entry is encrypted; the branch for a signed entry is empty. The
  output grows by \<open>cur_size\<close> zero bytes; a compressed block is inflated into them with
  \<open>cur_zsize\<close> input bytes and the return code of \<^verbatim>\<open>uncompress\<close> is not looked
  at; any other block is copied with \<^verbatim>\<open>memcpy(dest, block.data(), block.size())\<close>.
  Both calls can leave their buffers: \<^verbatim>\<open>uncompress\<close> is told that the block holds
  \<open>cur_zsize\<close> bytes, which is more than the block has when \<open>extent.size\<close> is below 16
  and not 0 (the difference wraps around), and \<^verbatim>\<open>memcpy\<close> writes past the end of
  the output when the block is longer than \<open>cur_size\<close>.
\<close>

fun process_extents ::
  "'w::len Extern \<Rightarrow> PupSegmentEntry \<Rightarrow> PupSegmentMeta \<Rightarrow> 'w PupExtent list \<Rightarrow> nat \<Rightarrow> Buffer
     \<Rightarrow> Buffer action" where
  "process_extents X entry meta [] left_size segment = returns segment"
| "process_extents X entry meta (extent # rest) left_size segment =
     and_then (s_seek ((entry_offset entry + unat (extent_offset extent)) mod 2 ^ 64)) (\<lambda>_.
     and_then (s_read (unat (extent_size extent))) (\<lambda>raw.
       let zsize = cur_zsize (extent_size extent);
           cur_size = min (block_size entry) left_size;
           left_size' = left_size - cur_size;
           block = decrypt_block X entry meta raw;
           dest = replicate cur_size 0
       in if is_compressed entry then
            (if length block < unat zsize then throws MemoryFault
             else process_extents X entry meta rest left_size'
                    (segment @ written (snd (uncompress X block (unat zsize) cur_size)) cur_size dest))
          else if cur_size < length block then throws MemoryFault
          else process_extents X entry meta rest left_size'
                 (segment @ written block (length block) dest)))"

text \<open>
  \<^verbatim>\<open>PupParser::get_blocked(index)\<close>, in two parts. \<open>get_blocked\<close> is "Get target
  segment" and "Get information segment": the target's entry and meta are the elements at
  \<open>index\<close>, and the info segment is looked up with \<^verbatim>\<open>find_info(index)\<close>.
  \<open>extract_with\<close> is the rest of the body, for the info segment at \<open>info_index\<close>;
  the branch for a signed info segment is empty.
\<close>

definition extract_with ::
  "'w::len Extern \<Rightarrow> PupSegmentEntry \<Rightarrow> PupSegmentMeta \<Rightarrow> nat \<Rightarrow> Buffer action" where
  "extract_with X entry meta info_index = (\<lambda>p.
     (and_then (lift (at (segEntries p) info_index)) (\<lambda>info_entry.
      and_then (lift (at (segMetas p) info_index)) (\<lambda>info_meta.
      and_then (s_seek (entry_offset info_entry)) (\<lambda>_.
      and_then (s_read (file_size info_entry)) (\<lambda>raw.
        let info_buffer = (if is_encrypted info_entry then pup_decrypt X raw info_meta else raw)
        in if is_compressed info_entry then throws Unimplemented
           else
             and_then (lift (read_info X info_entry (block_count entry) info_buffer))
               (\<lambda>(digests, extents).
                  process_extents X entry meta extents (file_size entry) [])))))) p)"

definition get_blocked :: "'w::len Extern \<Rightarrow> nat \<Rightarrow> Buffer action" where
  "get_blocked X index = (\<lambda>p.
     (and_then (lift (at (segEntries p) index)) (\<lambda>entry.
      and_then (lift (at (segMetas p) index)) (\<lambda>meta.
      and_then (lift (find_info p index)) (\<lambda>info_index.
        extract_with X entry meta info_index)))) p)"

text \<open>\<^verbatim>\<open>PupParser::get_nonblocked(index)\<close> and \<^verbatim>\<open>PupParser::get(id)\<close>.\<close>

definition get_nonblocked :: "nat \<Rightarrow> Buffer action" where
  "get_nonblocked index = throws Unimplemented"

definition get :: "'w::len Extern \<Rightarrow> nat \<Rightarrow> Buffer action" where
  "get X i = (\<lambda>p.
     (and_then (lift (find_id p i)) (\<lambda>index.
      and_then (lift (at (segEntries p) index)) (\<lambda>entry.
        if has_blocks entry then get_blocked X index else get_nonblocked index))) p)"

text \<open>
  For stating that a call leaves the parser alone: two parser objects with the same header,
  header extension, entry and meta vectors and the same stream contents. Only the position
  of the stream may differ.
\<close>

definition same_archive :: "PupParser \<Rightarrow> PupParser \<Rightarrow> bool" where
  "same_archive p q \<longleftrightarrow>
     header p = header q \<and> headerEx p = headerEx q \<and> segEntries p = segEntries q \<and>
     segMetas p = segMetas q \<and> contents (strm p) = contents (strm q)"

subsection \<open>A small archive\<close>

text \<open>
  A concrete instance of everything the decoder takes from outside, small enough to run the
  decoder on by hand: one-byte fields except for the little-endian magic; an entry is
  \<open>id, flags, offset, file_size, block_size, block_count\<close> with the flag bits
  0 info, 1 encrypted, 2 signed, 3 compressed, 4 blocks, 5 digests, 6 extents; a meta
  record is two bytes, repeated 16 times each as key and IV; an extent is
  \<open>offset, size\<close>. The named keys decrypt to the bytes themselves; the toy ciphers keep
  the lengths of the real ones, and the decrypting one changes whole blocks only;
  \<open>toy_uncompress\<close> treats its input as stored data.
\<close>

definition toy_header :: "Buffer \<Rightarrow> PupHeader" where
  "toy_header b =
     \<lparr>magic = ucast (b ! 0) + push_bit 8 (ucast (b ! 1)) + push_bit 16 (ucast (b ! 2))
               + push_bit 24 (ucast (b ! 3)),
      version = unat (b ! 4), mode = unat (b ! 5), endian = unat (b ! 6), attr = unat (b ! 7),
      flags = unat (b ! 8), hdr_size = unat (b ! 9), meta_size = unat (b ! 10)\<rparr>"

definition toy_entry :: "Buffer \<Rightarrow> PupSegmentEntry" where
  "toy_entry b =
     \<lparr>entry_id = unat (b ! 0),
      is_info = bit (b ! 1) 0, is_encrypted = bit (b ! 1) 1, is_signed = bit (b ! 1) 2,
      is_compressed = bit (b ! 1) 3, has_blocks = bit (b ! 1) 4, has_digests = bit (b ! 1) 5,
      has_extents = bit (b ! 1) 6,
      entry_offset = unat (b ! 2), file_size = unat (b ! 3), block_size = unat (b ! 4),
      block_count = unat (b ! 5)\<rparr>"

definition toy_meta :: "Buffer \<Rightarrow> PupSegmentMeta" where
  "toy_meta b = \<lparr>data_key = replicate 16 (b ! 0), data_iv = replicate 16 (b ! 1)\<rparr>"

definition toy_extent :: "Buffer \<Rightarrow> 32 PupExtent" where
  "toy_extent b = \<lparr>extent_offset = ucast (b ! 0), extent_size = ucast (b ! 1)\<rparr>"

definition toy_cbc_decrypt :: "Buffer \<Rightarrow> Buffer \<Rightarrow> Buffer \<Rightarrow> Buffer" where
  "toy_cbc_decrypt key iv msg =
     map (\<lambda>x. x XOR 0x5A) (take (length msg - length msg mod 16) msg)
     @ drop (length msg - length msg mod 16) msg"

definition toy_cbc_encrypt :: "Buffer \<Rightarrow> Buffer \<Rightarrow> Buffer" where
  "toy_cbc_encrypt key msg = map2 (XOR) msg key @ replicate 16 0x10"

definition toy_uncompress :: "Buffer \<Rightarrow> nat \<Rightarrow> nat \<Rightarrow> int \<times> Buffer" where
  "toy_uncompress src n m = (0, take m (take n src))"

definition toy_X :: "32 Extern" where
  "toy_X =
     \<lparr>sizeof_PupHeader = 11, as_PupHeader = toy_header,
      sizeof_PupHeaderEx = 1, as_PupHeaderEx = (\<lambda>b. \<lparr>segment_count = unat (b ! 0)\<rparr>),
      sizeof_PupSegmentEntry = 6, as_PupSegmentEntry = toy_entry,
      sizeof_PupSegmentMeta = 2, as_PupSegmentMeta = toy_meta,
      sizeof_PupDigest = 1,
      sizeof_PupExtent = 2, as_PupExtent = toy_extent,
      crypto_decrypt_named = (\<lambda>name b. b),
      cbc_nopad_decrypt = toy_cbc_decrypt,
      cbc_encrypt = toy_cbc_encrypt,
      uncompress = toy_uncompress,
      stack_prev_block = replicate 16 0xAA,
      stack_next_block = replicate 16 0xBB\<rparr>"

text \<open>
  The archive: the header, seven table entries, and the payload. Entry 0 is the content
  segment with id 1 (three blocks of 16, 36 bytes); entry 1 is an info segment with id 1
  and the extents (0,16), (16,16), (32,4); entry 2 is an info segment with id 0 and the
  extents (0,16), (16,16), (16,20); entry 3 is the content segment with id 3 (two blocks,
  20 bytes); entry 4 is an info segment with id 3 and the extents (0,16), (16,4); entry 5
  is the compressed content segment with id 5 (two blocks, 20 bytes); entry 6 is an info
  segment with id 5 and the extents (0,32), (32,19).
\<close>

definition toy_header_bytes :: Buffer where
  "toy_header_bytes = [79, 21, 61, 29, 0, 1, 1, 18, 0, 54, 14]"

definition toy_table_bytes :: Buffer where
  "toy_table_bytes =
     [7, 1, 16, 88, 36, 16, 3, 1, 65, 68, 6, 0,
      0, 0, 65, 74, 6, 0, 0, 3, 16, 88, 20, 16,
      2, 3, 65, 80, 4, 0, 0, 5, 24, 88, 20, 16,
      2, 5, 65, 84, 4, 0, 0, 1, 2, 3, 4, 5,
      6, 7, 8, 9, 10, 11, 12, 13, 14]"

definition toy_payload_bytes :: Buffer where
  "toy_payload_bytes =
     [0, 16, 16, 16, 32, 4, 0, 16, 16, 16, 16, 20,
      0, 16, 16, 4, 0, 32, 32, 19, 11, 48, 85, 122,
      159, 196, 233, 19, 56, 93, 130, 167, 204, 241, 27, 64,
      101, 138, 175, 212, 249, 35, 72, 109, 146, 183, 220, 6,
      43, 80, 117, 154, 191, 228, 14, 51, 88, 125, 162, 199,
      236, 22, 59, 96, 133, 170, 207, 244, 30, 67, 104, 141]"

definition toy_stream :: Stream where
  "toy_stream = \<lparr>contents = toy_header_bytes @ toy_table_bytes @ toy_payload_bytes, position = 0\<rparr>"

definition toy_entries :: "PupSegmentEntry list" where
  "toy_entries =
     [\<lparr>entry_id = 1, is_info = False, is_encrypted = False, is_signed = False,
       is_compressed = False, has_blocks = True, has_digests = False, has_extents = False,
       entry_offset = 88, file_size = 36, block_size = 16, block_count = 3\<rparr>,
      \<lparr>entry_id = 1, is_info = True, is_encrypted = False, is_signed = False,
       is_compressed = False, has_blocks = False, has_digests = False, has_extents = True,
       entry_offset = 68, file_size = 6, block_size = 0, block_count = 0\<rparr>,
      \<lparr>entry_id = 0, is_info = True, is_encrypted = False, is_signed = False,
       is_compressed = False, has_blocks = False, has_digests = False, has_extents = True,
       entry_offset = 74, file_size = 6, block_size = 0, block_count = 0\<rparr>,
      \<lparr>entry_id = 3, is_info = False, is_encrypted = False, is_signed = False,
       is_compressed = False, has_blocks = True, has_digests = False, has_extents = False,
       entry_offset = 88, file_size = 20, block_size = 16, block_count = 2\<rparr>,
      \<lparr>entry_id = 3, is_info = True, is_encrypted = False, is_signed = False,
       is_compressed = False, has_blocks = False, has_digests = False, has_extents = True,
       entry_offset = 80, file_size = 4, block_size = 0, block_count = 0\<rparr>,
      \<lparr>entry_id = 5, is_info = False, is_encrypted = False, is_signed = False,
       is_compressed = True, has_blocks = True, has_digests = False, has_extents = False,
       entry_offset = 88, file_size = 20, block_size = 16, block_count = 2\<rparr>,
      \<lparr>entry_id = 5, is_info = True, is_encrypted = False, is_signed = False,
       is_compressed = False, has_blocks = False, has_digests = False, has_extents = True,
       entry_offset = 84, file_size = 4, block_size = 0, block_count = 0\<rparr>]"

definition toy_metas :: "PupSegmentMeta list" where
  "toy_metas =
     [\<lparr>data_key = replicate 16 1, data_iv = replicate 16 2\<rparr>,
      \<lparr>data_key = replicate 16 3, data_iv = replicate 16 4\<rparr>,
      \<lparr>data_key = replicate 16 5, data_iv = replicate 16 6\<rparr>,
      \<lparr>data_key = replicate 16 7, data_iv = replicate 16 8\<rparr>,
      \<lparr>data_key = replicate 16 9, data_iv = replicate 16 10\<rparr>,
      \<lparr>data_key = replicate 16 11, data_iv = replicate 16 12\<rparr>,
      \<lparr>data_key = replicate 16 13, data_iv = replicate 16 14\<rparr>]"

text \<open>The parser object that the constructor builds from \<open>toy_stream\<close>.\<close>

definition toy_parser :: PupParser where
  "toy_parser =
     \<lparr>header = \<lparr>magic = PUP_MAGIC, version = 0, mode = 1, endian = 1, attr = 0x12, flags = 0,
                 hdr_size = 54, meta_size = 14\<rparr>,
      headerEx = \<lparr>segment_count = 7\<rparr>,
      segEntries = toy_entries,
      segMetas = toy_metas,
      strm = toy_stream\<lparr>position := 68\<rparr>\<rparr>"

text \<open>
  A parser object over the same stream whose table has an encrypted content segment with
  id 0 (one block of at most 32 bytes, 30 bytes, from offset 80) and its info segment,
  encrypted too: the 16 bytes at offset 19, which decrypt to the extent (27,30) first.
\<close>

definition toy_parser_enc :: PupParser where
  "toy_parser_enc =
     \<lparr>header = header toy_parser,
      headerEx = \<lparr>segment_count = 2\<rparr>,
      segEntries =
        [\<lparr>entry_id = 0, is_info = False, is_encrypted = True, is_signed = False,
          is_compressed = False, has_blocks = True, has_digests = False, has_extents = False,
          entry_offset = 80, file_size = 30, block_size = 32, block_count = 1\<rparr>,
         \<lparr>entry_id = 0, is_info = True, is_encrypted = True, is_signed = False,
          is_compressed = False, has_blocks = False, has_digests = False, has_extents = True,
          entry_offset = 19, file_size = 16, block_size = 0, block_count = 0\<rparr>],
      segMetas =
        [\<lparr>data_key = replicate 16 1, data_iv = replicate 16 2\<rparr>,
         \<lparr>data_key = replicate 16 3, data_iv = replicate 16 4\<rparr>],
      strm = toy_stream\<rparr>"

text \<open>
  A parser object over the same stream whose info segment is encrypted and two bytes long,
  the bytes 16, 20 at offset 78; its content segment with id 0 has one block of at most 32
  bytes, 20 bytes, from offset 88, and is neither encrypted nor compressed.
\<close>

definition toy_parser_short :: PupParser where
  "toy_parser_short =
     \<lparr>header = header toy_parser,
      headerEx = \<lparr>segment_count = 2\<rparr>,
      segEntries =
        [\<lparr>entry_id = 0, is_info = False, is_encrypted = False, is_signed = False,
          is_compressed = False, has_blocks = True, has_digests = False, has_extents = False,
          entry_offset = 88, file_size = 20, block_size = 32, block_count = 1\<rparr>,
         \<lparr>entry_id = 0, is_info = True, is_encrypted = True, is_signed = False,
          is_compressed = False, has_blocks = False, has_digests = False, has_extents = True,
          entry_offset = 78, file_size = 2, block_size = 0, block_count = 0\<rparr>],
      segMetas =
        [\<lparr>data_key = replicate 16 1, data_iv = replicate 16 2\<rparr>,
         \<lparr>data_key = replicate 16 3, data_iv = replicate 16 4\<rparr>],
      strm = toy_stream\<rparr>"

text \<open>The same archive with a wrong first magic byte, and with the JIG flag set.\<close>

definition toy_stream_bad_magic :: Stream where
  "toy_stream_bad_magic = toy_stream\<lparr>contents := (contents toy_stream)[0 := 0]\<rparr>"

definition toy_stream_jig :: Stream where
  "toy_stream_jig = toy_stream\<lparr>contents := (contents toy_stream)[8 := 1]\<rparr>"


section \<open>Properties\<close>

subsection \<open>Segment lookup\<close>


lemma find_loop_first:
  assumes "table_ok p" and "i \<le> k" and "k < segment_count (headerEx p)"
    and "pred (segEntries p ! k) (segMetas p ! k)"
    and "\<forall>j. i \<le> j \<and> j < k \<longrightarrow> \<not> pred (segEntries p ! j) (segMetas p ! j)"
  shows "find_loop pred p i = Inr k"
  using assms
proof (induction "k - i" arbitrary: i)
  case 0
  then have "i = k" by simp
  with 0 show ?case
    by (subst find_loop.simps) (simp add: table_ok_def)
next
  case (Suc d)
  then have lt: "i < k" by simp
  with Suc.prems have no: "\<not> pred (segEntries p ! i) (segMetas p ! i)" by simp
  have "find_loop pred p (i + 1) = Inr k"
    using Suc.hyps Suc.prems lt by (intro Suc.hyps(1)) auto
  with lt no Suc.prems show ?case
    by (subst find_loop.simps) (simp add: table_ok_def)
qed

lemma find_loop_none:
  assumes "table_ok p"
    and "\<forall>j. i \<le> j \<and> j < segment_count (headerEx p) \<longrightarrow> \<not> pred (segEntries p ! j) (segMetas p ! j)"
  shows "find_loop pred p i = Inl NotFoundError"
  using assms
proof (induction pred p i rule: find_loop.induct)
  case (1 pred p i)
  show ?case
  proof (cases "i < segment_count (headerEx p)")
    case True
    with 1 have "find_loop pred p (i + 1) = Inl NotFoundError"
      by (auto simp: table_ok_def)
    with True 1 show ?thesis
      by (subst find_loop.simps) (simp add: table_ok_def)
  next
    case False
    then show ?thesis by (subst find_loop.simps) simp
  qed
qed

lemma find_pred_char:
  assumes "table_ok p"
  shows "find_pred pred p =
     (if \<exists>k < segment_count (headerEx p). pred (segEntries p ! k) (segMetas p ! k)
      then Inr (LEAST k. pred (segEntries p ! k) (segMetas p ! k))
      else Inl NotFoundError)"
proof (cases "\<exists>k < segment_count (headerEx p). pred (segEntries p ! k) (segMetas p ! k)")
  case True
  let ?P = "\<lambda>k. pred (segEntries p ! k) (segMetas p ! k)"
  from True obtain k where k: "k < segment_count (headerEx p)" "?P k" by blast
  have l: "?P (LEAST k. ?P k)" using k(2) by (rule LeastI)
  have le: "(LEAST k. ?P k) \<le> k" using k(2) by (rule Least_le)
  have "find_loop pred p 0 = Inr (LEAST k. ?P k)"
    using assms l le k(1) by (intro find_loop_first) (auto dest: not_less_Least)
  with True show ?thesis by (simp add: find_pred_def)
next
  case False
  then have "find_loop pred p 0 = Inl NotFoundError"
    using assms by (intro find_loop_none) auto
  with False show ?thesis by (simp add: find_pred_def)
qed

text \<open>
  C7. On a parser whose two vectors have \<open>segment_count\<close> elements, \<open>find(id)\<close> scans
  the indices from 0 and returns the lowest index whose entry has the requested id and is
  not an info entry; the index it returns never holds an info entry; and it raises
  \<open>NotFoundError\<close> when no entry matches, in particular when the id occurs on info
  entries only.
\<close>

theorem find_id_lowest_content_match:
  assumes "table_ok p"
  shows "(\<forall>k. k < segment_count (headerEx p) \<and> entry_id (segEntries p ! k) = i
              \<and> \<not> is_info (segEntries p ! k)
              \<and> (\<forall>j < k. \<not> (entry_id (segEntries p ! j) = i \<and> \<not> is_info (segEntries p ! j)))
            \<longrightarrow> find_id p i = Inr k)
       \<and> (\<forall>k. find_id p i = Inr k \<longrightarrow>
              k < segment_count (headerEx p) \<and> entry_id (segEntries p ! k) = i
              \<and> \<not> is_info (segEntries p ! k))
       \<and> ((\<forall>k < segment_count (headerEx p).
              entry_id (segEntries p ! k) = i \<longrightarrow> is_info (segEntries p ! k))
            \<longrightarrow> find_id p i = Inl NotFoundError)"
proof -
  let ?P = "\<lambda>k. entry_id (segEntries p ! k) = i \<and> \<not> is_info (segEntries p ! k)"
  let ?n = "segment_count (headerEx p)"
  have char: "find_id p i = (if \<exists>k < ?n. ?P k then Inr (LEAST k. ?P k) else Inl NotFoundError)"
    unfolding find_id_def by (rule find_pred_char [OF assms])
  have first: "find_id p i = Inr k" if "k < ?n" "?P k" "\<forall>j < k. \<not> ?P j" for k
  proof -
    have "(LEAST k. ?P k) = k"
      using that by (intro Least_equality) (auto simp: not_less [symmetric])
    with that char show ?thesis by auto
  qed
  have sound: "k < ?n \<and> ?P k" if "find_id p i = Inr k" for k
  proof -
    from that char obtain m where m: "m < ?n" "?P m" and k: "k = (LEAST k. ?P k)"
      by (auto split: if_splits)
    have "?P k" unfolding k using m(2) by (rule LeastI)
    moreover have "k \<le> m" unfolding k using m(2) by (rule Least_le)
    ultimately show ?thesis using m(1) by simp
  qed
  have none: "find_id p i = Inl NotFoundError" if "\<forall>k < ?n. entry_id (segEntries p ! k) = i \<longrightarrow> is_info (segEntries p ! k)"
    using that char by auto
  show ?thesis using first sound none by blast
qed


lemma toy_table_ok: "table_ok toy_parser"
  by (simp add: table_ok_def toy_parser_def toy_entries_def toy_metas_def)

lemma toy_count: "segment_count (headerEx toy_parser) = 7"
  by (simp add: toy_parser_def)

lemma all_less_7: "(\<forall>k < (7::nat). P k) \<longleftrightarrow> P 0 \<and> P 1 \<and> P 2 \<and> P 3 \<and> P 4 \<and> P 5 \<and> P 6"
proof -
  have "k < 7 \<longleftrightarrow> k = 0 \<or> k = 1 \<or> k = 2 \<or> k = 3 \<or> k = 4 \<or> k = 5 \<or> k = 6" for k :: nat
    by arith
  then show ?thesis by auto
qed

theorem find_id_lowest_content_match_witness:
  "table_ok toy_parser \<and> find_id toy_parser 1 = Inr 0 \<and> find_id toy_parser 0 = Inl NotFoundError"
proof -
  note th1 = find_id_lowest_content_match [OF toy_table_ok, of 1]
  note th0 = find_id_lowest_content_match [OF toy_table_ok, of 0]
  have "0 < segment_count (headerEx toy_parser) \<and> entry_id (segEntries toy_parser ! 0) = 1
        \<and> \<not> is_info (segEntries toy_parser ! 0)
        \<and> (\<forall>j < 0. \<not> (entry_id (segEntries toy_parser ! j) = 1 \<and> \<not> is_info (segEntries toy_parser ! j)))"
    by (simp add: toy_parser_def toy_entries_def)
  with th1 have a: "find_id toy_parser 1 = Inr 0" by blast
  have "\<forall>k < segment_count (headerEx toy_parser).
          entry_id (segEntries toy_parser ! k) = 0 \<longrightarrow> is_info (segEntries toy_parser ! k)"
    unfolding toy_count all_less_7 by (simp add: toy_parser_def toy_entries_def)
  with th0 have b: "find_id toy_parser 0 = Inl NotFoundError" by blast
  from a b toy_table_ok show ?thesis by simp
qed

subsection \<open>Construction\<close>

lemma stream_read_InrD:
  assumes "stream_read st n = Inr (raw, st')"
  shows "raw = take n (drop (position st) (contents st))" and "contents st' = contents st"
    and "position st' = position st + n" and "position st + n \<le> length (contents st)"
  using assms by (auto simp: stream_read_def split: if_splits)

lemma stream_read_InlD: "stream_read st n = Inl e \<Longrightarrow> e = StreamError"
  by (auto simp: stream_read_def split: if_splits)

lemma read_array_InrD:
  "read_array err dec sz buf off n = Inr xs \<Longrightarrow>
     length xs = n \<and> (\<forall>i < n. xs ! i = dec (take sz (drop (off + i * sz) buf)))"
proof (induction n arbitrary: off xs)
  case 0
  then show ?case by simp
next
  case (Suc n)
  from Suc.prems obtain ys where ys: "read_array err dec sz buf (off + sz) n = Inr ys"
    and xs: "xs = dec (take sz (drop off buf)) # ys"
    by (auto split: if_splits sum.splits)
  from Suc.IH [OF ys] have len: "length ys = n"
    and nth: "\<And>i. i < n \<Longrightarrow> ys ! i = dec (take sz (drop (off + sz + i * sz) buf))" by auto
  show ?case
  proof (intro conjI allI impI)
    show "length xs = Suc n" using xs len by simp
  next
    fix i assume "i < Suc n"
    then show "xs ! i = dec (take sz (drop (off + i * sz) buf))"
      using xs nth by (cases i) (auto simp: add.assoc add.commute)
  qed
qed

lemma read_array_InlD: "read_array err dec sz buf off n = Inl e \<Longrightarrow> e = err"
  by (induction n arbitrary: off) (auto split: if_splits sum.splits)

lemma check_header_InlD:
  "check_header h = Inl e \<Longrightarrow> e = FormatError \<or> e = UnsupportedFeatureError"
  by (auto simp: check_header_def split: if_splits)

lemma load_entries_InlD:
  "load_entries X h st = Inl e \<Longrightarrow> e = LengthError \<or> e = StreamError \<or> e = MemoryFault"
  by (auto simp: load_entries_def Let_def split: if_splits sum.splits prod.splits
      dest: stream_read_InlD read_array_InlD)

lemma load_metas_InlD:
  "load_metas X h hx st = Inl e \<Longrightarrow> e = StreamError \<or> e = MemoryFault"
  by (auto simp: load_metas_def Let_def split: if_splits sum.splits prod.splits
      dest: stream_read_InlD read_array_InlD)

lemma PupParser_new_InrD:
  assumes "PupParser_new X st verify = Inr p"
  obtains raw st1 st2 st3 where
    "stream_read (stream_seek st 0) (sizeof_PupHeader X) = Inr (raw, st1)"
    "header p = as_PupHeader X raw"
    "check_header (header p) = Inr ()"
    "load_entries X (header p) st1 = Inr (headerEx p, segEntries p, st2)"
    "load_metas X (header p) (headerEx p) st2 = Inr (segMetas p, st3)"
    "strm p = st3" "\<not> verify"
  using assms unfolding PupParser_new_def
  by (auto simp: Let_def split: sum.splits prod.splits if_splits)

lemma PupParser_new_verify:
  "PupParser_new X st True =
     (case PupParser_new X st False of Inl e \<Rightarrow> Inl e | Inr p \<Rightarrow> Inl Unimplemented)"
  unfolding PupParser_new_def
  by (auto simp: Let_def split: sum.splits prod.splits)

lemma PupParser_new_no_Unimplemented: "PupParser_new X st False \<noteq> Inl Unimplemented"
  unfolding PupParser_new_def
  by (auto simp: Let_def split: sum.splits prod.splits
      dest: stream_read_InlD check_header_InlD load_entries_InlD load_metas_InlD)

lemma load_entries_InrD:
  assumes "load_entries X h st = Inr (hx, entries, st')"
  obtains raw where
    "stream_read st (hdr_size h - sizeof_PupHeader X) = Inr (raw, st')"
    "sizeof_PupHeader X \<le> hdr_size h"
    "hx = as_PupHeaderEx X (take (sizeof_PupHeaderEx X)
            (written (crypto_decrypt_named X ''pup.hdr'' raw) (length raw) raw))"
    "read_array MemoryFault (as_PupSegmentEntry X) (sizeof_PupSegmentEntry X)
           (written (crypto_decrypt_named X ''pup.hdr'' raw) (length raw) raw)
           (sizeof_PupHeaderEx X) (segment_count hx) = Inr entries"
  using assms unfolding load_entries_def
  by (auto simp: Let_def split: if_splits sum.splits prod.splits)

lemma load_metas_InrD:
  assumes "load_metas X h hx st = Inr (metas, st')"
  obtains raw where
    "stream_read st (meta_size h) = Inr (raw, st')"
    "read_array MemoryFault (as_PupSegmentMeta X) (sizeof_PupSegmentMeta X)
           (written (crypto_decrypt_named X ''pup.root_key'' raw) (length raw) raw)
           0 (segment_count hx) = Inr metas"
  using assms unfolding load_metas_def
  by (auto simp: Let_def split: if_splits sum.splits prod.splits)

text \<open>The constructor run on the small archive.\<close>

lemma read_array_numeral:
  "read_array err dec sz buf off (numeral k) =
     (if off + sz \<le> length buf then
        (case read_array err dec sz buf (off + sz) (pred_numeral k) of
           Inl e \<Rightarrow> Inl e
         | Inr xs \<Rightarrow> Inr (dec (take sz (drop off buf)) # xs))
      else Inl err)"
  by (simp add: numeral_eq_Suc)

lemma written_same: "written b (length b) b = b"
  by (simp add: written_def)

lemma toy_len: "length (contents toy_stream) = 140"
  by (simp add: toy_stream_def toy_header_bytes_def toy_table_bytes_def toy_payload_bytes_def)

lemma toy_rd_header:
  "stream_read (stream_seek toy_stream 0) 11 = Inr (toy_header_bytes, toy_stream\<lparr>position := 11\<rparr>)"
  by (simp add: stream_read_def stream_seek_def toy_stream_def toy_header_bytes_def
      toy_table_bytes_def toy_payload_bytes_def)

lemma toy_header_decoded: "toy_header toy_header_bytes = header toy_parser"
  by (simp add: toy_header_def toy_header_bytes_def toy_parser_def PUP_MAGIC_def)

lemma toy_header_checked: "check_header (header toy_parser) = Inr ()"
  by (simp add: check_header_def toy_parser_def LITTLE_def JIG_def)

lemma toy_rd_table:
  "stream_read (toy_stream\<lparr>position := 11\<rparr>) 43 = Inr (take 43 toy_table_bytes, toy_stream\<lparr>position := 54\<rparr>)"
  by (simp add: stream_read_def toy_stream_def toy_header_bytes_def
      toy_table_bytes_def toy_payload_bytes_def)

lemma toy_entries_decoded:
  "read_array MemoryFault toy_entry 6 (take 43 toy_table_bytes) (Suc 0) 7 = Inr toy_entries"
  by (simp add: read_array_numeral toy_table_bytes_def toy_entry_def toy_entries_def)

lemma toy_load_entries:
  "load_entries toy_X (header toy_parser) (toy_stream\<lparr>position := 11\<rparr>)
     = Inr (\<lparr>segment_count = 7\<rparr>, toy_entries, toy_stream\<lparr>position := 54\<rparr>)"
proof -
  have "hdr_size (header toy_parser) = 54" by (simp add: toy_parser_def)
  moreover have "length (take 43 toy_table_bytes) = 43" by (simp add: toy_table_bytes_def)
  moreover have "unat (take 1 (take 43 toy_table_bytes) ! 0) = 7" by (simp add: toy_table_bytes_def)
  moreover have "take 43 toy_table_bytes \<noteq> []" by (simp add: toy_table_bytes_def)
  ultimately show ?thesis
    by (simp add: load_entries_def toy_X_def toy_rd_table toy_entries_decoded written_same
        del: take_eq_Nil)
qed

lemma toy_rd_metas:
  "stream_read (toy_stream\<lparr>position := 54\<rparr>) 14 = Inr (drop 43 toy_table_bytes, toy_stream\<lparr>position := 68\<rparr>)"
  by (simp add: stream_read_def toy_stream_def toy_header_bytes_def
      toy_table_bytes_def toy_payload_bytes_def)

lemma toy_metas_decoded:
  "read_array MemoryFault toy_meta 2 (drop 43 toy_table_bytes) 0 7 = Inr toy_metas"
  by (simp add: read_array_numeral toy_table_bytes_def toy_meta_def toy_metas_def)

lemma toy_load_metas:
  "load_metas toy_X (header toy_parser) \<lparr>segment_count = 7\<rparr> (toy_stream\<lparr>position := 54\<rparr>)
     = Inr (toy_metas, toy_stream\<lparr>position := 68\<rparr>)"
proof -
  have "meta_size (header toy_parser) = 14" by (simp add: toy_parser_def)
  then show ?thesis
    by (simp add: load_metas_def toy_X_def toy_rd_metas toy_metas_decoded written_same)
qed

lemma toy_new:
  "PupParser_new toy_X toy_stream verify = (if verify then Inl Unimplemented else Inr toy_parser)"
proof -
  have "sizeof_PupHeader toy_X = 11" "as_PupHeader toy_X = toy_header"
    by (simp_all add: toy_X_def)
  then show ?thesis
    by (simp add: PupParser_new_def toy_rd_header toy_header_decoded toy_header_checked
        toy_load_entries toy_load_metas) (simp add: toy_parser_def)
qed

text \<open>
  C6. When the header that the constructor reads has a magic, version, mode, endian or attr
  other than the required constant, construction fails with \<open>FormatError\<close>; when those
  five are right and the JIG bit of the flags is set, it fails with
  \<open>UnsupportedFeatureError\<close>. Only the header has been read at that point: the result
  is an error whatever follows the header in the stream, so no entry or meta array exists.
\<close>

theorem invalid_header_rejected:
  assumes "stream_read (stream_seek st 0) (sizeof_PupHeader X) = Inr (raw, st1)"
    and "h = as_PupHeader X raw"
  shows "(magic h \<noteq> PUP_MAGIC \<or> version h \<noteq> 0 \<or> mode h \<noteq> 1 \<or> endian h \<noteq> LITTLE \<or> attr h \<noteq> 0x12
            \<longrightarrow> PupParser_new X st verify = Inl FormatError)
       \<and> (magic h = PUP_MAGIC \<and> version h = 0 \<and> mode h = 1 \<and> endian h = LITTLE \<and> attr h = 0x12
            \<and> flags h AND JIG \<noteq> 0
            \<longrightarrow> PupParser_new X st verify = Inl UnsupportedFeatureError)"
  using assms by (auto simp: PupParser_new_def check_header_def Let_def)

lemma toy_bad_magic_header:
  "stream_read (stream_seek toy_stream_bad_magic 0) (sizeof_PupHeader toy_X)
     = Inr (toy_header_bytes[0 := 0], toy_stream_bad_magic\<lparr>position := 11\<rparr>)"
  by (simp add: stream_read_def stream_seek_def toy_stream_bad_magic_def toy_stream_def
      toy_header_bytes_def toy_table_bytes_def toy_payload_bytes_def toy_X_def)

lemma toy_jig_header:
  "stream_read (stream_seek toy_stream_jig 0) (sizeof_PupHeader toy_X)
     = Inr (toy_header_bytes[8 := 1], toy_stream_jig\<lparr>position := 11\<rparr>)"
  by (simp add: stream_read_def stream_seek_def toy_stream_jig_def toy_stream_def
      toy_header_bytes_def toy_table_bytes_def toy_payload_bytes_def toy_X_def)

theorem invalid_header_rejected_witness:
  "PupParser_new toy_X toy_stream_bad_magic False = Inl FormatError
   \<and> PupParser_new toy_X toy_stream_jig False = Inl UnsupportedFeatureError"
proof -
  have a: "as_PupHeader toy_X = toy_header" by (simp add: toy_X_def)
  have m: "magic (toy_header (toy_header_bytes[0 := 0])) \<noteq> PUP_MAGIC"
    by (simp add: toy_header_def toy_header_bytes_def PUP_MAGIC_def)
  have j: "magic (toy_header (toy_header_bytes[8 := 1])) = PUP_MAGIC
        \<and> version (toy_header (toy_header_bytes[8 := 1])) = 0
        \<and> mode (toy_header (toy_header_bytes[8 := 1])) = 1
        \<and> endian (toy_header (toy_header_bytes[8 := 1])) = LITTLE
        \<and> attr (toy_header (toy_header_bytes[8 := 1])) = 0x12
        \<and> flags (toy_header (toy_header_bytes[8 := 1])) AND JIG \<noteq> 0"
    by (simp add: toy_header_def toy_header_bytes_def PUP_MAGIC_def LITTLE_def JIG_def)
  from invalid_header_rejected [OF toy_bad_magic_header, of "toy_header (toy_header_bytes[0 := 0])" False] m a
  have 1: "PupParser_new toy_X toy_stream_bad_magic False = Inl FormatError" by simp
  from invalid_header_rejected [OF toy_jig_header, of "toy_header (toy_header_bytes[8 := 1])" False] j a
  have 2: "PupParser_new toy_X toy_stream_jig False = Inl UnsupportedFeatureError" by simp
  from 1 2 show ?thesis by simp
qed

text \<open>
  C8. When construction succeeds, the entry vector and the meta vector both have
  \<open>headerEx.segment_count\<close> elements, the count being the one decoded from the
  decrypted header extension; and for every index \<open>i\<close> below the count, entry \<open>i\<close>
  is the \<open>i\<close>-th entry record of the decrypted header extension and meta \<open>i\<close> is
  the \<open>i\<close>-th record of the decrypted metadata block.
\<close>

theorem tables_parallel:
  assumes "PupParser_new X st verify = Inr p"
  shows "headerEx p = as_PupHeaderEx X (take (sizeof_PupHeaderEx X) (ext_block X st))
       \<and> length (segEntries p) = segment_count (headerEx p)
       \<and> length (segMetas p) = segment_count (headerEx p)
       \<and> (\<forall>i < segment_count (headerEx p).
            segEntries p ! i =
              as_PupSegmentEntry X (take (sizeof_PupSegmentEntry X)
                (drop (sizeof_PupHeaderEx X + i * sizeof_PupSegmentEntry X) (ext_block X st)))
          \<and> segMetas p ! i =
              as_PupSegmentMeta X (take (sizeof_PupSegmentMeta X)
                (drop (i * sizeof_PupSegmentMeta X) (meta_block X st))))"
proof -
  from assms obtain raw st1 st2 st3 where
    rd: "stream_read (stream_seek st 0) (sizeof_PupHeader X) = Inr (raw, st1)"
    and h: "header p = as_PupHeader X raw"
    and le: "load_entries X (header p) st1 = Inr (headerEx p, segEntries p, st2)"
    and lm: "load_metas X (header p) (headerEx p) st2 = Inr (segMetas p, st3)"
    by (rule PupParser_new_InrD)
  from stream_read_InrD [OF rd]
  have raw: "raw = take (sizeof_PupHeader X) (contents st)"
    and c1: "contents st1 = contents st" and p1: "position st1 = sizeof_PupHeader X"
    by (simp_all add: stream_seek_def)
  from le obtain eraw where
    erd: "stream_read st1 (hdr_size (header p) - sizeof_PupHeader X) = Inr (eraw, st2)"
    and ge: "sizeof_PupHeader X \<le> hdr_size (header p)"
    and hx0: "headerEx p = as_PupHeaderEx X (take (sizeof_PupHeaderEx X)
            (written (crypto_decrypt_named X ''pup.hdr'' eraw) (length eraw) eraw))"
    and es0: "read_array MemoryFault (as_PupSegmentEntry X) (sizeof_PupSegmentEntry X)
           (written (crypto_decrypt_named X ''pup.hdr'' eraw) (length eraw) eraw)
           (sizeof_PupHeaderEx X) (segment_count (headerEx p)) = Inr (segEntries p)"
    by (rule load_entries_InrD)
  from stream_read_InrD [OF erd] c1 p1 ge
  have eraw: "eraw = take (hdr_size (header p) - sizeof_PupHeader X)
                       (drop (sizeof_PupHeader X) (contents st))"
    and c2: "contents st2 = contents st" and p2: "position st2 = hdr_size (header p)"
    by simp_all
  from lm obtain mraw where
    mrd: "stream_read st2 (meta_size (header p)) = Inr (mraw, st3)"
    and ms0: "read_array MemoryFault (as_PupSegmentMeta X) (sizeof_PupSegmentMeta X)
           (written (crypto_decrypt_named X ''pup.root_key'' mraw) (length mraw) mraw)
           0 (segment_count (headerEx p)) = Inr (segMetas p)"
    by (rule load_metas_InrD)
  from stream_read_InrD(1) [OF mrd] c2 p2
  have mraw: "mraw = take (meta_size (header p)) (drop (hdr_size (header p)) (contents st))"
    by simp
  have eb: "ext_block X st = written (crypto_decrypt_named X ''pup.hdr'' eraw) (length eraw) eraw"
    unfolding ext_block_def Let_def eraw h raw ..
  have mb: "meta_block X st = written (crypto_decrypt_named X ''pup.root_key'' mraw) (length mraw) mraw"
    unfolding meta_block_def Let_def mraw h raw ..
  have hx: "headerEx p = as_PupHeaderEx X (take (sizeof_PupHeaderEx X) (ext_block X st))"
    using hx0 unfolding eb .
  have es: "read_array MemoryFault (as_PupSegmentEntry X) (sizeof_PupSegmentEntry X)
              (ext_block X st) (sizeof_PupHeaderEx X) (segment_count (headerEx p)) = Inr (segEntries p)"
    using es0 unfolding eb .
  have ms: "read_array MemoryFault (as_PupSegmentMeta X) (sizeof_PupSegmentMeta X)
              (meta_block X st) 0 (segment_count (headerEx p)) = Inr (segMetas p)"
    using ms0 unfolding mb .
  from read_array_InrD [OF es] read_array_InrD [OF ms] hx show ?thesis by simp
qed

theorem tables_parallel_witness:
  "PupParser_new toy_X toy_stream False = Inr toy_parser
   \<and> length (segEntries toy_parser) = 7 \<and> length (segMetas toy_parser) = 7
   \<and> segment_count (headerEx toy_parser) = 7"
proof -
  have n: "PupParser_new toy_X toy_stream False = Inr toy_parser" by (simp add: toy_new)
  from tables_parallel [OF n] toy_count n show ?thesis by simp
qed

text \<open>
  C10. Construction with \<open>verify = true\<close> never yields a parser; and it fails with
  \<open>Unimplemented\<close> exactly when the same archive constructs successfully with
  \<open>verify = false\<close>, that is, after the header checks, the header extension and both
  arrays have been read without error.
\<close>

theorem verify_always_throws:
  "(\<forall>p. PupParser_new X st True \<noteq> Inr p)
   \<and> (PupParser_new X st True = Inl Unimplemented \<longleftrightarrow> (\<exists>p. PupParser_new X st False = Inr p))"
  using PupParser_new_no_Unimplemented [of X st]
  by (auto simp: PupParser_new_verify [of X st] split: sum.splits)

theorem verify_always_throws_witness:
  "PupParser_new toy_X toy_stream False = Inr toy_parser
   \<and> PupParser_new toy_X toy_stream True = Inl Unimplemented"
  using verify_always_throws [of toy_X toy_stream] toy_new [of False] by auto

subsection \<open>Extraction\<close>

lemma same_archive_refl: "same_archive p p"
  by (simp add: same_archive_def)

lemma same_archive_trans: "same_archive p q \<Longrightarrow> same_archive q r \<Longrightarrow> same_archive p r"
  by (simp add: same_archive_def)

lemma same_archive_sym: "same_archive p q \<Longrightarrow> same_archive q p"
  by (simp add: same_archive_def)

lemma and_then_lift: "and_then (lift r) f p = (case r of Inl e \<Rightarrow> (Inl e, p) | Inr x \<Rightarrow> f x p)"
  by (simp add: and_then_def lift_def split: sum.splits)

lemma and_then_seek:
  "and_then (s_seek off) f p = f () (p\<lparr>strm := (strm p)\<lparr>position := off\<rparr>\<rparr>)"
  by (simp add: and_then_def s_seek_def stream_seek_def)

lemma and_then_read:
  "and_then (s_read n) f p =
     (case stream_read (strm p) n of
        Inl e \<Rightarrow> (Inl e, p)
      | Inr (raw, st) \<Rightarrow> f raw (p\<lparr>strm := st\<rparr>))"
  by (simp add: and_then_def s_read_def split: sum.splits prod.splits)

lemma seek_same:
  "same_archive p q \<Longrightarrow> p\<lparr>strm := (strm p)\<lparr>position := off\<rparr>\<rparr> = q\<lparr>strm := (strm q)\<lparr>position := off\<rparr>\<rparr>"
  by (cases p, cases q, cases "strm p", cases "strm q") (simp add: same_archive_def)

lemma seek_frame: "same_archive p (p\<lparr>strm := (strm p)\<lparr>position := off\<rparr>\<rparr>)"
  by (simp add: same_archive_def)

lemma read_frame: "stream_read (strm p) n = Inr (raw, st) \<Longrightarrow> same_archive p (p\<lparr>strm := st\<rparr>)"
  by (auto simp: same_archive_def stream_read_def split: if_splits)

lemma throws_frame: "same_archive p (snd (throws e p))"
  by (simp add: throws_def same_archive_def)

lemma process_extents_frame:
  "same_archive p (snd (process_extents X entry meta extents left_size segment p))"
proof (induction extents arbitrary: left_size segment p)
  case Nil
  show ?case by (simp add: returns_def same_archive_refl)
next
  case (Cons extent rest)
  let ?q = "p\<lparr>strm := (strm p)\<lparr>position := (entry_offset entry + unat (extent_offset extent)) mod 2 ^ 64\<rparr>\<rparr>"
  have pq: "same_archive p ?q" by (rule seek_frame)
  show ?case
  proof (cases "stream_read (strm ?q) (unat (extent_size extent))")
    case (Inl e)
    then show ?thesis using pq
      by (simp add: and_then_seek and_then_read)
  next
    case (Inr r)
    obtain raw st where r: "r = (raw, st)" by (cases r)
    have qr: "same_archive ?q (?q\<lparr>strm := st\<rparr>)"
      using Inr unfolding r by (rule read_frame)
    have pr: "same_archive p (?q\<lparr>strm := st\<rparr>)"
      using pq qr by (rule same_archive_trans)
    have step: "same_archive p (snd (process_extents X entry meta rest l s (?q\<lparr>strm := st\<rparr>)))" for l s
      using pr Cons.IH by (rule same_archive_trans)
    show ?thesis
      unfolding process_extents.simps and_then_seek and_then_read Inr r
      using step pr by (simp add: Let_def throws_def)
  qed
qed

lemma process_extents_same:
  assumes "same_archive p q"
  shows "fst (process_extents X entry meta extents left_size segment p)
       = fst (process_extents X entry meta extents left_size segment q)"
proof (cases extents)
  case Nil
  then show ?thesis by (simp add: returns_def)
next
  case (Cons extent rest)
  show ?thesis
    unfolding Cons process_extents.simps and_then_seek seek_same [OF assms] ..
qed

lemma find_loop_same:
  "same_archive p q \<Longrightarrow> find_loop pred p i = find_loop pred q i"
proof (induction pred p i rule: find_loop.induct)
  case (1 pred p i)
  then have eq: "headerEx p = headerEx q" "segEntries p = segEntries q" "segMetas p = segMetas q"
    by (simp_all add: same_archive_def)
  show ?case
  proof (cases "i < segment_count (headerEx p) \<and> \<not> (length (segEntries p) \<le> i \<or> length (segMetas p) \<le> i)
                 \<and> \<not> pred (segEntries p ! i) (segMetas p ! i)")
    case True
    with 1 have "find_loop pred p (i + 1) = find_loop pred q (i + 1)" by simp
    with True show ?thesis
      by (subst find_loop.simps, subst (2) find_loop.simps) (simp add: eq [symmetric])
  next
    case False
    then show ?thesis
      by (subst find_loop.simps, subst (2) find_loop.simps) (auto simp: eq [symmetric])
  qed
qed

lemma extract_with_frame: "same_archive p (snd (extract_with X entry meta j p))"
proof -
  have sk: "same_archive p (p\<lparr>strm := (strm p)\<lparr>position := off\<rparr>\<rparr>)" for off
    by (rule seek_frame)
  have rd: "same_archive p (p\<lparr>strm := st\<rparr>)"
    if "stream_read ((strm p)\<lparr>position := off\<rparr>) n = Inr (raw, st)" for off n raw st
    using that by (auto simp: same_archive_def stream_read_def split: if_splits)
  have pe: "same_archive p (snd (process_extents X entry meta exts l s (p\<lparr>strm := st\<rparr>)))"
    if "stream_read ((strm p)\<lparr>position := off\<rparr>) n = Inr (raw, st)" for off n raw st exts l s
    using rd [OF that] process_extents_frame by (rule same_archive_trans)
  show ?thesis
    unfolding extract_with_def and_then_lift and_then_seek and_then_read
    by (auto simp: Let_def throws_def lift_def and_then_def same_archive_refl sk rd pe
        split: sum.splits prod.splits)
qed

lemma extract_with_same:
  assumes "same_archive p q"
  shows "fst (extract_with X entry meta j p) = fst (extract_with X entry meta j q)"
proof -
  have eq: "segEntries p = segEntries q" "segMetas p = segMetas q"
    using assms by (simp_all add: same_archive_def)
  show ?thesis
    unfolding extract_with_def and_then_lift and_then_seek seek_same [OF assms] eq
    by (simp split: sum.splits)
qed

lemma get_blocked_frame: "same_archive p (snd (get_blocked X index p))"
  unfolding get_blocked_def and_then_lift
  by (simp add: same_archive_refl extract_with_frame split: sum.splits)

lemma get_blocked_same:
  assumes "same_archive p q"
  shows "fst (get_blocked X index p) = fst (get_blocked X index q)"
proof -
  have eq: "segEntries p = segEntries q" "segMetas p = segMetas q"
    using assms by (simp_all add: same_archive_def)
  have fi: "find_info p index = find_info q index"
    unfolding find_info_def find_pred_def by (rule find_loop_same [OF assms])
  show ?thesis
    unfolding get_blocked_def and_then_lift eq fi
    by (simp add: extract_with_same [OF assms] split: sum.splits)
qed

lemma get_frame: "same_archive p (snd (get X i p))"
  unfolding get_def and_then_lift get_nonblocked_def
  by (simp add: same_archive_refl get_blocked_frame throws_frame split: sum.splits)

lemma get_same:
  assumes "same_archive p q"
  shows "fst (get X i p) = fst (get X i q)"
proof -
  have eq: "segEntries p = segEntries q"
    using assms by (simp add: same_archive_def)
  have fi: "find_id p i = find_id q i"
    unfolding find_id_def find_pred_def by (rule find_loop_same [OF assms])
  show ?thesis
    unfolding get_def and_then_lift eq fi get_nonblocked_def
    by (simp add: get_blocked_same [OF assms] throws_def split: sum.splits)
qed

text \<open>
  C1 (amended). For a target at \<open>index\<close>, the info segment that
  \<open>get_blocked\<close> uses is the lowest entry that is an info entry and whose id equals
  \<open>index\<close>, the position of the target in the table (the call is
  \<^verbatim>\<open>find_info(index)\<close>); without such an entry the extraction fails with
  \<open>NotFoundError\<close>.
\<close>

theorem info_segment_by_index:
  assumes "table_ok p" and "index < segment_count (headerEx p)"
  shows "(\<forall>j. j < segment_count (headerEx p)
              \<and> entry_id (segEntries p ! j) = index \<and> is_info (segEntries p ! j)
              \<and> (\<forall>k < j. \<not> (entry_id (segEntries p ! k) = index \<and> is_info (segEntries p ! k)))
            \<longrightarrow> get_blocked X index p
                  = extract_with X (segEntries p ! index) (segMetas p ! index) j p)
       \<and> ((\<forall>j < segment_count (headerEx p).
              entry_id (segEntries p ! j) = index \<longrightarrow> \<not> is_info (segEntries p ! j))
            \<longrightarrow> get_blocked X index p = (Inl NotFoundError, p))"
proof -
  let ?P = "\<lambda>k. entry_id (segEntries p ! k) = index \<and> is_info (segEntries p ! k)"
  let ?n = "segment_count (headerEx p)"
  have char: "find_info p index = (if \<exists>k < ?n. ?P k then Inr (LEAST k. ?P k) else Inl NotFoundError)"
    unfolding find_info_def by (rule find_pred_char [OF assms(1)])
  have at: "at (segEntries p) index = Inr (segEntries p ! index)"
    "at (segMetas p) index = Inr (segMetas p ! index)"
    using assms by (simp_all add: at_def table_ok_def)
  have gb: "get_blocked X index p =
      (case find_info p index of Inl e \<Rightarrow> (Inl e, p)
       | Inr j \<Rightarrow> extract_with X (segEntries p ! index) (segMetas p ! index) j p)"
    unfolding get_blocked_def and_then_lift at by simp
  have found: "get_blocked X index p = extract_with X (segEntries p ! index) (segMetas p ! index) j p"
    if "j < ?n" "?P j" "\<forall>k < j. \<not> ?P k" for j
  proof -
    have "(LEAST k. ?P k) = j"
      using that by (intro Least_equality) (auto simp: not_less [symmetric])
    with that char have "find_info p index = Inr j" by auto
    then show ?thesis by (simp add: gb)
  qed
  have none: "get_blocked X index p = (Inl NotFoundError, p)"
    if "\<forall>j < ?n. entry_id (segEntries p ! j) = index \<longrightarrow> \<not> is_info (segEntries p ! j)"
  proof -
    from that char have "find_info p index = Inl NotFoundError" by auto
    then show ?thesis by (simp add: gb)
  qed
  from found none show ?thesis by blast
qed

text \<open>The decoder run on the small archive.\<close>

lemma toy_fields:
  "segEntries toy_parser = toy_entries" "segMetas toy_parser = toy_metas"
  "strm toy_parser = toy_stream\<lparr>position := 68\<rparr>"
  by (simp_all add: toy_parser_def)


lemmas action_defs = and_then_def lift_def at_def s_seek_def s_read_def returns_def throws_def
  stream_seek_def

lemma toy_find_id_3: "find_id toy_parser 3 = Inr 3" by code_simp
lemma toy_find_info_3: "find_info toy_parser 3 = Inr 4" by code_simp

lemma toy_info4: "take 4 (drop 80 (contents toy_stream)) = [0, 16, 16, 4]"
  by (simp add: toy_stream_def toy_header_bytes_def toy_table_bytes_def toy_payload_bytes_def)

lemma toy_extents4:
  "read_info toy_X (toy_entries ! 4) 2 [0, 16, 16, 4]
     = Inr ([], [\<lparr>extent_offset = 0, extent_size = 16\<rparr>, \<lparr>extent_offset = 16, extent_size = 4\<rparr>])"
  by (simp add: read_info_def toy_entries_def toy_X_def read_array_numeral toy_extent_def)

lemmas toy_bytes_defs = toy_stream_def toy_header_bytes_def toy_table_bytes_def toy_payload_bytes_def

lemmas extract_defs = get_def get_blocked_def extract_with_def get_nonblocked_def action_defs
  stream_read_def read_info_def read_array_numeral cur_zsize_def written_def decrypt_block_def
  crypto_decrypt_cbc_def

lemma toy_X_fields:
  "sizeof_PupDigest toy_X = 1" "sizeof_PupExtent toy_X = 2" "as_PupExtent toy_X = toy_extent"
  "cbc_nopad_decrypt toy_X = toy_cbc_decrypt"
  "cbc_encrypt toy_X = toy_cbc_encrypt" "uncompress toy_X = toy_uncompress"
  "stack_prev_block toy_X = replicate 16 0xAA" "stack_next_block toy_X = replicate 16 0xBB"
  by (simp_all add: toy_X_def)

lemma toy_get_3:
  "get toy_X 3 toy_parser =
     (Inr (take 20 (drop 88 (contents toy_stream))), toy_parser\<lparr>strm := toy_stream\<lparr>position := 108\<rparr>\<rparr>)"
  by (simp add: extract_defs toy_find_id_3 toy_find_info_3 toy_fields
     toy_entries_def toy_metas_def toy_len toy_info4 toy_X_fields toy_extent_def)
    (simp add: toy_bytes_defs)

lemma toy_find_info_0: "find_info toy_parser 0 = Inr 2" by code_simp
lemma toy_find_info_1: "find_info toy_parser (Suc 0) = Inr (Suc 0)" by code_simp
lemma toy_find_id_1: "find_id toy_parser (Suc 0) = Inr 0" by code_simp

lemma toy_info1: "take 6 (drop 68 (contents toy_stream)) = [0, 16, 16, 16, 32, 4]"
  by (simp add: toy_bytes_defs)
lemma toy_info2: "take 6 (drop 74 (contents toy_stream)) = [0, 16, 16, 16, 16, 20]"
  by (simp add: toy_bytes_defs)
lemma toy_info6: "take 4 (drop 84 (contents toy_stream)) = [0, 32, 32, 19]"
  by (simp add: toy_bytes_defs)

lemmas toy_eval = extract_defs toy_fields toy_entries_def toy_metas_def toy_len toy_X_fields
  toy_extent_def toy_info1 toy_info2 toy_info4 toy_info6

lemma toy_get_blocked_0:
  "get_blocked toy_X 0 toy_parser = (Inl MemoryFault, toy_parser\<lparr>strm := toy_stream\<lparr>position := 124\<rparr>\<rparr>)"
  by (simp add: toy_eval toy_find_info_0)

lemma toy_extract_0_with_2:
  "extract_with toy_X (segEntries toy_parser ! 0) (segMetas toy_parser ! 0) 2 toy_parser
     = (Inl MemoryFault, toy_parser\<lparr>strm := toy_stream\<lparr>position := 124\<rparr>\<rparr>)"
  by (simp add: toy_eval)

lemma toy_extract_0_with_1:
  "extract_with toy_X (segEntries toy_parser ! 0) (segMetas toy_parser ! 0) (Suc 0) toy_parser
     = (Inr (take 36 (drop 88 (contents toy_stream))), toy_parser\<lparr>strm := toy_stream\<lparr>position := 124\<rparr>\<rparr>)"
  by (simp add: toy_eval) (simp add: toy_bytes_defs)

text \<open>
  C1 as stated fails on the small archive: the target at index 0 has id 1 and entry 1 is
  the info entry with id 1, but \<open>get_blocked\<close> uses entry 2, the info entry with id 0,
  and its outcome differs from the extraction with entry 1.
\<close>

theorem info_segment_by_id_counterexample:
  "find_info toy_parser (entry_id (segEntries toy_parser ! 0)) = Inr 1
   \<and> get_blocked toy_X 0 toy_parser
       = extract_with toy_X (segEntries toy_parser ! 0) (segMetas toy_parser ! 0) 2 toy_parser
   \<and> entry_id (segEntries toy_parser ! 2) \<noteq> entry_id (segEntries toy_parser ! 0)
   \<and> get_blocked toy_X 0 toy_parser
       \<noteq> extract_with toy_X (segEntries toy_parser ! 0) (segMetas toy_parser ! 0) 1 toy_parser"
proof -
  have "entry_id (segEntries toy_parser ! 0) = 1" "entry_id (segEntries toy_parser ! 2) = 0"
    by (simp_all add: toy_fields toy_entries_def)
  then show ?thesis
    by (simp add: toy_find_info_1 toy_get_blocked_0 toy_extract_0_with_2 toy_extract_0_with_1)
qed

theorem info_segment_by_index_witness:
  "table_ok toy_parser \<and> 3 < segment_count (headerEx toy_parser)
   \<and> get_blocked toy_X 3 toy_parser
       = extract_with toy_X (segEntries toy_parser ! 3) (segMetas toy_parser ! 3) 4 toy_parser
   \<and> get_blocked toy_X 2 toy_parser = (Inl NotFoundError, toy_parser)"
proof -
  have n3: "3 < segment_count (headerEx toy_parser)" and n2: "2 < segment_count (headerEx toy_parser)"
    by (simp_all add: toy_count)
  note th3 = info_segment_by_index [OF toy_table_ok n3, of toy_X]
  note th2 = info_segment_by_index [OF toy_table_ok n2, of toy_X]
  have "4 < segment_count (headerEx toy_parser)
        \<and> entry_id (segEntries toy_parser ! 4) = 3 \<and> is_info (segEntries toy_parser ! 4)
        \<and> (\<forall>k < 4. \<not> (entry_id (segEntries toy_parser ! k) = 3 \<and> is_info (segEntries toy_parser ! k)))"
  proof -
    have "k < 4 \<longleftrightarrow> k = 0 \<or> k = 1 \<or> k = 2 \<or> k = 3" for k :: nat by arith
    then show ?thesis by (auto simp: toy_count toy_fields toy_entries_def)
  qed
  with th3 have a: "get_blocked toy_X 3 toy_parser
       = extract_with toy_X (segEntries toy_parser ! 3) (segMetas toy_parser ! 3) 4 toy_parser"
    by blast
  have "\<forall>j < segment_count (headerEx toy_parser).
          entry_id (segEntries toy_parser ! j) = 2 \<longrightarrow> \<not> is_info (segEntries toy_parser ! j)"
    unfolding toy_count all_less_7 by (simp add: toy_fields toy_entries_def)
  with th2 have b: "get_blocked toy_X 2 toy_parser = (Inl NotFoundError, toy_parser)" by blast
  from a b n3 toy_table_ok show ?thesis by simp
qed

text \<open>
  C2. The scenario of the claim, run through the decoder: the segment with id 1 of the
  small archive has block size 16, file size 36 and the extents (0,16), (16,16), (16,20),
  and is neither encrypted nor compressed. For the third block \<open>cur_size\<close> is 4 and the
  block has 20 bytes, which \<^verbatim>\<open>memcpy\<close> copies past the end of the output.
\<close>

theorem scenario_copy_overruns:
  "block_size (segEntries toy_parser ! 0) = 16 \<and> file_size (segEntries toy_parser ! 0) = 36
   \<and> \<not> is_encrypted (segEntries toy_parser ! 0) \<and> \<not> is_compressed (segEntries toy_parser ! 0)
   \<and> find_id toy_parser 1 = Inr 0 \<and> find_info toy_parser 0 = Inr 2
   \<and> read_info toy_X (segEntries toy_parser ! 2) 3 (take 6 (drop 74 (contents toy_stream)))
       = Inr ([], [\<lparr>extent_offset = 0, extent_size = 16\<rparr>, \<lparr>extent_offset = 16, extent_size = 16\<rparr>,
                   \<lparr>extent_offset = 16, extent_size = 20\<rparr>])
   \<and> fst (get toy_X 1 toy_parser) = Inl MemoryFault"
proof -
  have "fst (get toy_X 1 toy_parser) = Inl MemoryFault"
    by (simp add: toy_eval toy_find_id_1 toy_find_info_0)
  moreover have "read_info toy_X (segEntries toy_parser ! 2) 3 (take 6 (drop 74 (contents toy_stream)))
       = Inr ([], [\<lparr>extent_offset = 0, extent_size = 16\<rparr>, \<lparr>extent_offset = 16, extent_size = 16\<rparr>,
                   \<lparr>extent_offset = 16, extent_size = 20\<rparr>])"
    by (simp add: toy_eval)
  ultimately show ?thesis
    using toy_find_id_1 toy_find_info_0 by (simp add: toy_fields toy_entries_def)
qed













subsection \<open>Block decryption\<close>

lemma zip_take_length: "zip xs (take (length xs) ys) = zip xs ys"
proof (induction xs arbitrary: ys)
  case Nil
  show ?case by simp
next
  case (Cons x xs)
  then show ?case by (cases ys) simp_all
qed

lemma aligned_part: "(n - n mod 16) mod 16 = (0::nat)"
  by (metis minus_mod_eq_mult_div mod_mult_self1_is_0 mult.commute)

lemma written_prefix:
  "length out = n \<Longrightarrow> n \<le> length dest \<Longrightarrow> written out n dest = out @ drop n dest"
  by (simp add: written_def min_def)

text \<open>
  C3 (amended). With ciphers that keep the block lengths, on every buffer of at least 16
  bytes, and on the empty buffer, \<open>pup_decrypt\<close> is the Block Decryptor of the
  specification: the aligned prefix is decrypted with the CBC cipher without padding, and a
  tail is XORed with the start of the CBC encryption, under the same key, of the last
  aligned block as it was before the decryption. On a buffer whose length is a multiple of
  16 the result is the plain CBC decryption of the buffer.
\<close>

theorem pup_decrypt_steals_from_last_block:
  assumes "cipher_lengths X"
    and "16 \<le> length buffer \<or> length buffer mod 16 = 0"
  shows "pup_decrypt X buffer meta = block_decryptor X buffer (data_key meta) (data_iv meta)
       \<and> (length buffer mod 16 = 0 \<longrightarrow>
            pup_decrypt X buffer meta = cbc_nopad_decrypt X (data_key meta) (data_iv meta) buffer)"
proof -
  let ?ov = "length buffer mod 16"
  let ?sa = "length buffer - ?ov"
  let ?D = "cbc_nopad_decrypt X (data_key meta) (data_iv meta) (take ?sa buffer)"
  have sa_le: "?sa \<le> length buffer" by simp
  have "length (take ?sa buffer) mod 16 = 0" by (simp add: aligned_part)
  with assms(1) have lenD: "length ?D = ?sa"
    unfolding cipher_lengths_def by (metis length_take min.absorb2 sa_le)
  have b1: "written ?D ?sa buffer = ?D @ drop ?sa buffer"
    using lenD sa_le by (rule written_prefix)
  show ?thesis
  proof (cases "?ov = 0")
    case True
    with assms(1)
    have "length (cbc_nopad_decrypt X (data_key meta) (data_iv meta) buffer) = length buffer"
      unfolding cipher_lengths_def by simp
    then have "written (cbc_nopad_decrypt X (data_key meta) (data_iv meta) buffer) (length buffer) buffer
             = cbc_nopad_decrypt X (data_key meta) (data_iv meta) buffer"
      by (simp add: written_def)
    with True show ?thesis
      by (simp add: pup_decrypt_def block_decryptor_def Let_def)
  next
    case False
    with assms(2) have big: "16 \<le> length buffer" by simp
    have sa16: "16 \<le> ?sa"
    proof -
      have "length buffer = 16 * (length buffer div 16) + ?ov" by simp
      moreover have "1 \<le> length buffer div 16" using big by (simp add: Suc_le_eq div_greater_zero_iff)
      ultimately show ?thesis by (metis add_diff_cancel_right' mult_le_mono2 mult.right_neutral)
    qed
    let ?prev = "take 16 (drop (?sa - 16) buffer)"
    let ?E = "cbc_encrypt X (data_key meta) ?prev"
    have lenprev: "length ?prev = 16" using sa16 sa_le by simp
    with assms(1) have lenE: "16 \<le> length ?E"
      unfolding cipher_lengths_def by simp
    have nb: "written ?E 16 (array_of 16 (stack_next_block X)) = take 16 ?E"
      using lenE by (simp add: written_def array_of_def)
    have cap: "drop (length (take ?sa buffer) - 16) (take ?sa buffer) = ?prev"
      using sa16 sa_le by (simp add: drop_take)
    have tl: "length (drop ?sa buffer) = ?ov" by simp
    have zp: "zip (drop ?sa buffer) (take ?ov (take 16 ?E)) = zip (drop ?sa buffer) (take 16 ?E)"
      using zip_take_length [of "drop ?sa buffer" "take 16 ?E"] unfolding tl .
    have code: "pup_decrypt X buffer meta = ?D @ map2 (XOR) (drop ?sa buffer) (take 16 ?E)"
      using False sa16 lenD nb by (simp add: pup_decrypt_def Let_def b1)
    have spec: "block_decryptor X buffer (data_key meta) (data_iv meta)
                  = ?D @ map2 (XOR) (drop ?sa buffer) (take 16 ?E)"
      using False unfolding block_decryptor_def Let_def cap zp by simp
    from code spec False show ?thesis by simp
  qed
qed

lemma toy_cipher_lengths: "cipher_lengths toy_X"
  by (simp add: cipher_lengths_def toy_X_fields toy_cbc_decrypt_def toy_cbc_encrypt_def)

lemma replicate_numeral: "replicate (numeral k) x = x # replicate (pred_numeral k) x"
  by (simp add: numeral_eq_Suc)

theorem pup_decrypt_steals_from_last_block_witness:
  "cipher_lengths toy_X
   \<and> 16 \<le> length (take 20 (drop 88 (contents toy_stream)))
   \<and> pup_decrypt toy_X (take 20 (drop 88 (contents toy_stream))) (toy_metas ! 0)
       = block_decryptor toy_X (take 20 (drop 88 (contents toy_stream)))
           (data_key (toy_metas ! 0)) (data_iv (toy_metas ! 0))
   \<and> length (take 16 (drop 88 (contents toy_stream))) mod 16 = 0
   \<and> pup_decrypt toy_X (take 16 (drop 88 (contents toy_stream))) (toy_metas ! 0)
       = cbc_nopad_decrypt toy_X (data_key (toy_metas ! 0)) (data_iv (toy_metas ! 0))
           (take 16 (drop 88 (contents toy_stream)))"
proof -
  have l20: "16 \<le> length (take 20 (drop 88 (contents toy_stream)))" by (simp add: toy_len)
  have l16: "length (take 16 (drop 88 (contents toy_stream))) mod 16 = 0" by (simp add: toy_len)
  note a = pup_decrypt_steals_from_last_block [OF toy_cipher_lengths disjI1 [OF l20], of "toy_metas ! 0"]
  note b = pup_decrypt_steals_from_last_block [OF toy_cipher_lengths disjI2 [OF l16], of "toy_metas ! 0"]
  from a have 1: "pup_decrypt toy_X (take 20 (drop 88 (contents toy_stream))) (toy_metas ! 0)
       = block_decryptor toy_X (take 20 (drop 88 (contents toy_stream)))
           (data_key (toy_metas ! 0)) (data_iv (toy_metas ! 0))" by (rule conjunct1)
  from b l16 have 2: "pup_decrypt toy_X (take 16 (drop 88 (contents toy_stream))) (toy_metas ! 0)
       = cbc_nopad_decrypt toy_X (data_key (toy_metas ! 0)) (data_iv (toy_metas ! 0))
           (take 16 (drop 88 (contents toy_stream)))" by blast
  from toy_cipher_lengths l20 1 l16 2 show ?thesis by blast
qed

text \<open>
  C3 as stated fails on a buffer shorter than 16 bytes: there is no aligned block, the
  encrypted block is the uninitialised \<open>prev_block\<close>, and the result on the one-byte
  buffer changes with what the stack holds; it is not the result of the Block Decryptor of
  the specification either.
\<close>

theorem short_buffer_tail_counterexample:
  "pup_decrypt toy_X [1] (toy_metas ! 0) = [0xAA]
   \<and> pup_decrypt (toy_X\<lparr>stack_prev_block := replicate 16 0\<rparr>) [1] (toy_metas ! 0) = [0]
   \<and> block_decryptor toy_X [1] (data_key (toy_metas ! 0)) (data_iv (toy_metas ! 0)) = [0x11]"
  by (simp add: pup_decrypt_def block_decryptor_def toy_X_def toy_metas_def toy_cbc_decrypt_def
      toy_cbc_encrypt_def written_def array_of_def Let_def replicate_numeral)

subsection \<open>The stack arrays of the block decryption\<close>

lemma length_written: "length (written out n dest) = length dest"
  by (simp add: written_def)

lemma length_array_of: "length (array_of n xs) = n"
  by (simp add: array_of_def)

lemma written_at_least:
  "n \<le> length out \<Longrightarrow> length dest = n \<Longrightarrow> written out n dest = take n out"
  by (simp add: written_def)

lemma aligned_at_least_16:
  assumes "16 \<le> (n::nat)" shows "16 \<le> n - n mod 16"
proof -
  have "n - n mod 16 = 16 * (n div 16)" by (simp add: minus_mod_eq_mult_div)
  moreover have "1 \<le> n div 16" using assms by (simp add: Suc_le_eq div_greater_zero_iff)
  ultimately show ?thesis by simp
qed

lemma pup_decrypt_eq_block_decryptor:
  assumes cl: "cipher_lengths X"
    and len: "16 \<le> length buffer \<or> length buffer mod 16 = 0"
  shows "pup_decrypt X buffer meta = block_decryptor X buffer (data_key meta) (data_iv meta)"
proof -
  let ?ov = "length buffer mod 16"
  let ?sa = "length buffer - ?ov"
  let ?D = "cbc_nopad_decrypt X (data_key meta) (data_iv meta) (take ?sa buffer)"
  have sa_le: "?sa \<le> length buffer" by simp
  have "length (take ?sa buffer) mod 16 = 0" by (simp add: aligned_part)
  with cl have lenD: "length ?D = ?sa"
    unfolding cipher_lengths_def by (metis length_take min.absorb2 sa_le)
  have b1: "written ?D ?sa buffer = ?D @ drop ?sa buffer"
    using lenD sa_le by (rule written_prefix)
  show ?thesis
  proof (cases "?ov = 0")
    case True
    with cl have "length (cbc_nopad_decrypt X (data_key meta) (data_iv meta) buffer) = length buffer"
      unfolding cipher_lengths_def by simp
    then have "written (cbc_nopad_decrypt X (data_key meta) (data_iv meta) buffer) (length buffer) buffer
             = cbc_nopad_decrypt X (data_key meta) (data_iv meta) buffer"
      by (simp add: written_def)
    with True show ?thesis
      by (simp add: pup_decrypt_def block_decryptor_def Let_def)
  next
    case False
    with len have sa16: "16 \<le> ?sa" by (simp add: aligned_at_least_16)
    let ?prev = "take 16 (drop (?sa - 16) buffer)"
    let ?E = "cbc_encrypt X (data_key meta) ?prev"
    have "length ?prev = 16" using sa16 sa_le by simp
    with cl have lenE: "16 \<le> length ?E"
      unfolding cipher_lengths_def by simp
    have nb: "written ?E 16 (array_of 16 (stack_next_block X)) = take 16 ?E"
      using lenE by (simp add: written_at_least length_array_of)
    have cap: "drop (length (take ?sa buffer) - 16) (take ?sa buffer) = ?prev"
      using sa16 sa_le by (simp add: drop_take)
    have tl: "length (drop ?sa buffer) = ?ov" by simp
    have zp: "zip (drop ?sa buffer) (take ?ov (take 16 ?E)) = zip (drop ?sa buffer) (take 16 ?E)"
      using zip_take_length [of "drop ?sa buffer" "take 16 ?E"] unfolding tl .
    have code: "pup_decrypt X buffer meta = ?D @ map2 (XOR) (drop ?sa buffer) (take 16 ?E)"
      using False sa16 lenD nb by (simp add: pup_decrypt_def Let_def b1)
    have spec: "block_decryptor X buffer (data_key meta) (data_iv meta)
                  = ?D @ map2 (XOR) (drop ?sa buffer) (take 16 ?E)"
      using False unfolding block_decryptor_def Let_def cap zp by simp
    from code spec show ?thesis by simp
  qed
qed


lemma cipher_lengths_stack:
  "cipher_lengths (X\<lparr>stack_prev_block := a, stack_next_block := b\<rparr>) = cipher_lengths X"
  by (simp add: cipher_lengths_def)

lemma block_decryptor_stack:
  "block_decryptor (X\<lparr>stack_prev_block := a, stack_next_block := b\<rparr>) buffer key iv
     = block_decryptor X buffer key iv"
  by (simp add: block_decryptor_def Let_def cong: if_cong)

lemma pup_decrypt_stack:
  assumes "cipher_lengths X" and "16 \<le> length buffer \<or> length buffer mod 16 = 0"
  shows "pup_decrypt (X\<lparr>stack_prev_block := a, stack_next_block := b\<rparr>) buffer meta
       = pup_decrypt X buffer meta"
proof -
  have "cipher_lengths (X\<lparr>stack_prev_block := a, stack_next_block := b\<rparr>)"
    using assms(1) by (simp add: cipher_lengths_stack)
  then have "pup_decrypt (X\<lparr>stack_prev_block := a, stack_next_block := b\<rparr>) buffer meta
      = block_decryptor (X\<lparr>stack_prev_block := a, stack_next_block := b\<rparr>) buffer
          (data_key meta) (data_iv meta)"
    using assms(2) by (rule pup_decrypt_eq_block_decryptor)
  also have "\<dots> = block_decryptor X buffer (data_key meta) (data_iv meta)"
    by (rule block_decryptor_stack)
  also have "\<dots> = pup_decrypt X buffer meta"
    using assms by (rule pup_decrypt_eq_block_decryptor [symmetric])
  finally show ?thesis .
qed

lemma decrypt_block_stack:
  "decrypt_block (X\<lparr>stack_prev_block := a, stack_next_block := b\<rparr>) entry meta block
     = decrypt_block X entry meta block"
  by (simp add: decrypt_block_def crypto_decrypt_cbc_def block_decryptor_stack)

lemma process_extents_stack:
  "process_extents (X\<lparr>stack_prev_block := a, stack_next_block := b\<rparr>)
     entry meta extents left_size segment
   = process_extents X entry meta extents left_size segment"
  by (induction extents arbitrary: left_size segment)
    (simp_all add: Let_def decrypt_block_stack cong: if_cong)

lemma read_info_stack:
  "read_info (X\<lparr>stack_prev_block := a, stack_next_block := b\<rparr>) info_entry n info_buffer
     = read_info X info_entry n info_buffer"
  by (simp add: read_info_def cong: if_cong sum.case_cong)

lemma find_loop_sound:
  "find_loop pred p i = Inr k \<Longrightarrow>
     k < length (segEntries p) \<and> pred (segEntries p ! k) (segMetas p ! k)"
proof (induction pred p i rule: find_loop.induct)
  case (1 pred p i)
  from "1.prems" show ?case
    by (subst (asm) find_loop.simps) (auto split: if_splits dest: "1.IH")
qed

lemma find_info_sound:
  "find_info p index = Inr j \<Longrightarrow> j < length (segEntries p) \<and> is_info (segEntries p ! j)"
  unfolding find_info_def find_pred_def by (auto dest: find_loop_sound)

lemma extract_with_stack:
  assumes cl: "cipher_lengths X"
    and ok: "j < length (segEntries p) \<Longrightarrow> is_encrypted (segEntries p ! j) \<Longrightarrow>
             16 \<le> file_size (segEntries p ! j) \<or> file_size (segEntries p ! j) mod 16 = 0"
  shows "extract_with (X\<lparr>stack_prev_block := a, stack_next_block := b\<rparr>) entry meta j p
       = extract_with X entry meta j p"
proof (cases "j < length (segEntries p) \<and> j < length (segMetas p)")
  case False
  then show ?thesis
    by (auto simp: extract_with_def and_then_lift at_def)
next
  case True
  let ?e = "segEntries p ! j"
  let ?q = "p\<lparr>strm := (strm p)\<lparr>position := entry_offset ?e\<rparr>\<rparr>"
  show ?thesis
  proof (cases "stream_read (strm ?q) (file_size ?e)")
    case (Inl err)
    with True show ?thesis
      by (simp add: extract_with_def and_then_lift and_then_seek and_then_read at_def)
  next
    case (Inr r)
    obtain raw st where r: "r = (raw, st)" by (cases r)
    from Inr r have rd: "stream_read (strm ?q) (file_size ?e) = Inr (raw, st)" by simp
    have "length raw = file_size ?e"
      using stream_read_InrD(1) [OF rd] stream_read_InrD(4) [OF rd] by simp
    with ok True have "is_encrypted ?e \<Longrightarrow> 16 \<le> length raw \<or> length raw mod 16 = 0"
      by simp
    then have pd: "is_encrypted ?e \<Longrightarrow>
        pup_decrypt (X\<lparr>stack_prev_block := a, stack_next_block := b\<rparr>) raw (segMetas p ! j)
        = pup_decrypt X raw (segMetas p ! j)"
      using cl by (simp add: pup_decrypt_stack)
    from True Inr r pd show ?thesis
      by (simp add: extract_with_def and_then_lift and_then_seek and_then_read at_def
          process_extents_stack read_info_stack Let_def)
  qed
qed

lemma get_blocked_stack:
  assumes cl: "cipher_lengths X"
    and ok: "\<forall>j < length (segEntries p). is_info (segEntries p ! j) \<and> is_encrypted (segEntries p ! j)
               \<longrightarrow> 16 \<le> file_size (segEntries p ! j) \<or> file_size (segEntries p ! j) mod 16 = 0"
  shows "get_blocked (X\<lparr>stack_prev_block := a, stack_next_block := b\<rparr>) index p
       = get_blocked X index p"
proof -
  have "extract_with (X\<lparr>stack_prev_block := a, stack_next_block := b\<rparr>) entry meta j p
      = extract_with X entry meta j p" if "find_info p index = Inr j" for entry meta j
  proof (rule extract_with_stack [OF cl])
    assume "j < length (segEntries p)" "is_encrypted (segEntries p ! j)"
    with ok find_info_sound [OF that]
    show "16 \<le> file_size (segEntries p ! j) \<or> file_size (segEntries p ! j) mod 16 = 0"
      by simp
  qed
  then show ?thesis
    by (simp add: get_blocked_def and_then_lift split: sum.splits)
qed

lemma get_stack:
  assumes cl: "cipher_lengths X"
    and ok: "\<forall>j < length (segEntries p). is_info (segEntries p ! j) \<and> is_encrypted (segEntries p ! j)
               \<longrightarrow> 16 \<le> file_size (segEntries p ! j) \<or> file_size (segEntries p ! j) mod 16 = 0"
  shows "get (X\<lparr>stack_prev_block := a, stack_next_block := b\<rparr>) i p = get X i p"
  by (simp add: get_def and_then_lift get_blocked_stack [OF cl ok] split: sum.splits)

subsection \<open>Decryption of target blocks\<close>

lemma length_crypto_decrypt_cbc: "length (crypto_decrypt_cbc X key iv buf) = length buf"
  by (simp add: crypto_decrypt_cbc_def length_written)

lemma written_whole: "length out = n \<Longrightarrow> length dest = n \<Longrightarrow> written out n dest = out"
  by (simp add: written_def)



lemma toy_enc_fields:
  "segEntries toy_parser_enc =
     [\<lparr>entry_id = 0, is_info = False, is_encrypted = True, is_signed = False,
       is_compressed = False, has_blocks = True, has_digests = False, has_extents = False,
       entry_offset = 80, file_size = 30, block_size = 32, block_count = 1\<rparr>,
      \<lparr>entry_id = 0, is_info = True, is_encrypted = True, is_signed = False,
       is_compressed = False, has_blocks = False, has_digests = False, has_extents = True,
       entry_offset = 19, file_size = 16, block_size = 0, block_count = 0\<rparr>]"
  "segMetas toy_parser_enc =
     [\<lparr>data_key = replicate 16 1, data_iv = replicate 16 2\<rparr>,
      \<lparr>data_key = replicate 16 3, data_iv = replicate 16 4\<rparr>]"
  "strm toy_parser_enc = toy_stream"
  by (simp_all add: toy_parser_enc_def)

lemma toy_enc_find: "find_id toy_parser_enc 0 = Inr 0" "find_info toy_parser_enc 0 = Inr (Suc 0)"
  by code_simp+

lemma toy_enc_info: "take 16 (drop 19 (contents toy_stream)) = 
     [65, 68, 6, 0, 0, 0, 65, 74, 6, 0, 0, 3, 16, 88, 20, 16]"
  by (simp add: toy_bytes_defs)

lemma toy_enc_info_plain:
  "pup_decrypt toy_X 
     [65, 68, 6, 0, 0, 0, 65, 74, 6, 0, 0, 3, 16, 88, 20, 16] \<lparr>data_key = replicate 16 3, data_iv = replicate 16 4\<rparr> = 
     [27, 30, 92, 90, 90, 90, 27, 16, 92, 90, 90, 89, 74, 2, 78, 74]"
  by code_simp

lemma toy_enc_extents:
  "read_info toy_X (segEntries toy_parser_enc ! Suc 0) (Suc 0) 
     [27, 30, 92, 90, 90, 90, 27, 16, 92, 90, 90, 89, 74, 2, 78, 74]
     = Inr ([], [\<lparr>extent_offset = 27, extent_size = 30\<rparr>])"
  by (simp add: read_info_def toy_enc_fields toy_X_fields toy_extent_def)

lemma toy_enc_block:
  "process_extents toy_X (segEntries toy_parser_enc ! 0) (segMetas toy_parser_enc ! 0)
     [\<lparr>extent_offset = 27, extent_size = 30\<rparr>] 30 [] (toy_parser_enc\<lparr>strm := toy_stream\<lparr>position := 35\<rparr>\<rparr>)
   = (Inr (crypto_decrypt_cbc toy_X (replicate 16 1) (replicate 16 2)
             (take 30 (drop 107 (contents toy_stream)))),
      toy_parser_enc\<lparr>strm := toy_stream\<lparr>position := 137\<rparr>\<rparr>)"
proof -
  have w: "written (crypto_decrypt_cbc toy_X (replicate 16 1) (replicate 16 2)
                      (take 30 (drop 107 (contents toy_stream)))) 30 (replicate 30 0)
           = crypto_decrypt_cbc toy_X (replicate 16 1) (replicate 16 2)
                      (take 30 (drop 107 (contents toy_stream)))"
    by (rule written_whole) (simp_all add: length_crypto_decrypt_cbc toy_len)
  show ?thesis
    by (simp add: and_then_seek and_then_read stream_read_def toy_len toy_enc_fields
        decrypt_block_def length_crypto_decrypt_cbc returns_def w)
qed

lemma toy_get_enc:
  "get toy_X 0 toy_parser_enc
     = (Inr (crypto_decrypt_cbc toy_X (replicate 16 1) (replicate 16 2)
              (take 30 (drop 107 (contents toy_stream)))),
        toy_parser_enc\<lparr>strm := toy_stream\<lparr>position := 137\<rparr>\<rparr>)"
proof -
  have ats: "at (segEntries toy_parser_enc) 0 = Inr (segEntries toy_parser_enc ! 0)"
    "at (segMetas toy_parser_enc) 0 = Inr (segMetas toy_parser_enc ! 0)"
    "at (segEntries toy_parser_enc) (Suc 0) = Inr (segEntries toy_parser_enc ! Suc 0)"
    "at (segMetas toy_parser_enc) (Suc 0) = Inr (segMetas toy_parser_enc ! Suc 0)"
    by (simp_all add: at_def toy_enc_fields)
  have e: "has_blocks (segEntries toy_parser_enc ! 0)"
    "block_count (segEntries toy_parser_enc ! 0) = Suc 0"
    "file_size (segEntries toy_parser_enc ! 0) = 30"
    "entry_offset (segEntries toy_parser_enc ! Suc 0) = 19"
    "file_size (segEntries toy_parser_enc ! Suc 0) = 16"
    "is_encrypted (segEntries toy_parser_enc ! Suc 0)"
    "\<not> is_compressed (segEntries toy_parser_enc ! Suc 0)"
    "segMetas toy_parser_enc ! Suc 0 = \<lparr>data_key = replicate 16 3, data_iv = replicate 16 4\<rparr>"
    by (simp_all add: toy_enc_fields)
  have rd: "stream_read (toy_stream\<lparr>position := 19\<rparr>) 16
              = Inr (
     [65, 68, 6, 0, 0, 0, 65, 74, 6, 0, 0, 3, 16, 88, 20, 16], toy_stream\<lparr>position := 35\<rparr>)"
    by (simp add: stream_read_def toy_len toy_enc_info)
  show ?thesis
    unfolding get_def get_blocked_def extract_with_def and_then_lift and_then_seek and_then_read
    by (simp add: toy_enc_find ats e toy_enc_fields(3) rd toy_enc_info_plain toy_enc_extents
        toy_enc_block del: process_extents.simps)
qed




subsection \<open>Repeated extraction\<close>

text \<open>
  C9 (amended). With ciphers that keep the block lengths, on a table whose encrypted info
  segments are at least 16 bytes long or whole blocks, a call of \<open>get\<close> that does not
  end in an access outside a buffer leaves the header, the header extension, both vectors
  and the contents of the stream as they were (only the position of the stream moves), and
  a second call with the same id on the object the first call left behind has the same
  outcome, the same buffer or the same error, whatever the stack holds at the second call.
\<close>

theorem get_repeatable_without_stale_memory:
  assumes "cipher_lengths X"
    and "\<forall>j < length (segEntries p). is_info (segEntries p ! j) \<and> is_encrypted (segEntries p ! j)
           \<longrightarrow> 16 \<le> file_size (segEntries p ! j) \<or> file_size (segEntries p ! j) mod 16 = 0"
    and "fst (get X i p) \<noteq> Inl MemoryFault"
  shows "header (snd (get X i p)) = header p
       \<and> headerEx (snd (get X i p)) = headerEx p
       \<and> segEntries (snd (get X i p)) = segEntries p
       \<and> segMetas (snd (get X i p)) = segMetas p
       \<and> contents (strm (snd (get X i p))) = contents (strm p)
       \<and> fst (get (X\<lparr>stack_prev_block := a, stack_next_block := b\<rparr>) i (snd (get X i p)))
           = fst (get X i p)"
proof -
  let ?X' = "X\<lparr>stack_prev_block := a, stack_next_block := b\<rparr>"
  have f: "same_archive p (snd (get X i p))" by (rule get_frame)
  have "fst (get ?X' i (snd (get X i p))) = fst (get ?X' i p)"
    using get_same [OF f, of ?X' i] by simp
  also have "\<dots> = fst (get X i p)"
    using get_stack [OF assms(1,2), where a = a and b = b and i = i] by simp
  finally show ?thesis using f by (simp add: same_archive_def)
qed

theorem get_repeatable_without_stale_memory_witness:
  "cipher_lengths toy_X
   \<and> is_info (segEntries toy_parser_enc ! 1) \<and> is_encrypted (segEntries toy_parser_enc ! 1)
   \<and> 16 \<le> file_size (segEntries toy_parser_enc ! 1)
   \<and> fst (get toy_X 0 toy_parser_enc)
       = Inr (crypto_decrypt_cbc toy_X (replicate 16 1) (replicate 16 2)
                (take 30 (drop 107 (contents toy_stream))))
   \<and> segEntries (snd (get toy_X 0 toy_parser_enc)) = segEntries toy_parser_enc
   \<and> fst (get (toy_X\<lparr>stack_prev_block := replicate 16 0, stack_next_block := replicate 16 0\<rparr>) 0
            (snd (get toy_X 0 toy_parser_enc)))
       = Inr (crypto_decrypt_cbc toy_X (replicate 16 1) (replicate 16 2)
                (take 30 (drop 107 (contents toy_stream))))"
proof -
  have len: "length (segEntries toy_parser_enc) = 2" by (simp add: toy_enc_fields)
  have e0: "\<not> is_info (segEntries toy_parser_enc ! 0)" by (simp add: toy_enc_fields)
  have e1: "is_info (segEntries toy_parser_enc ! 1)" "is_encrypted (segEntries toy_parser_enc ! 1)"
    "16 \<le> file_size (segEntries toy_parser_enc ! 1)"
    by (simp_all add: toy_enc_fields)
  have ok: "\<forall>j < length (segEntries toy_parser_enc).
              is_info (segEntries toy_parser_enc ! j) \<and> is_encrypted (segEntries toy_parser_enc ! j)
              \<longrightarrow> 16 \<le> file_size (segEntries toy_parser_enc ! j)
                  \<or> file_size (segEntries toy_parser_enc ! j) mod 16 = 0"
  proof (intro allI impI)
    fix j assume "j < length (segEntries toy_parser_enc)"
      and "is_info (segEntries toy_parser_enc ! j) \<and> is_encrypted (segEntries toy_parser_enc ! j)"
    with len e0 have "j = 1" by (cases "j = 0") auto
    with e1 show "16 \<le> file_size (segEntries toy_parser_enc ! j)
                  \<or> file_size (segEntries toy_parser_enc ! j) mod 16 = 0" by simp
  qed
  have r: "fst (get toy_X 0 toy_parser_enc)
       = Inr (crypto_decrypt_cbc toy_X (replicate 16 1) (replicate 16 2)
                (take 30 (drop 107 (contents toy_stream))))"
    unfolding toy_get_enc by (rule fst_conv)
  have nf: "fst (get toy_X 0 toy_parser_enc) \<noteq> Inl MemoryFault"
    unfolding r by (rule Inr_not_Inl)
  note th = get_repeatable_without_stale_memory [OF toy_cipher_lengths ok nf,
      of "replicate 16 0" "replicate 16 0"]
  have a: "segEntries (snd (get toy_X 0 toy_parser_enc)) = segEntries toy_parser_enc"
    using th by (elim conjE)
  have b: "fst (get (toy_X\<lparr>stack_prev_block := replicate 16 0, stack_next_block := replicate 16 0\<rparr>) 0
                 (snd (get toy_X 0 toy_parser_enc)))
           = fst (get toy_X 0 toy_parser_enc)"
    using th by (elim conjE)
  show ?thesis
    by (intro conjI toy_cipher_lengths e1 r a trans [OF b r])
qed

lemma toy_short_fields:
  "segEntries toy_parser_short =
     [\<lparr>entry_id = 0, is_info = False, is_encrypted = False, is_signed = False,
       is_compressed = False, has_blocks = True, has_digests = False, has_extents = False,
       entry_offset = 88, file_size = 20, block_size = 32, block_count = 1\<rparr>,
      \<lparr>entry_id = 0, is_info = True, is_encrypted = True, is_signed = False,
       is_compressed = False, has_blocks = False, has_digests = False, has_extents = True,
       entry_offset = 78, file_size = 2, block_size = 0, block_count = 0\<rparr>]"
  "segMetas toy_parser_short =
     [\<lparr>data_key = replicate 16 1, data_iv = replicate 16 2\<rparr>,
      \<lparr>data_key = replicate 16 3, data_iv = replicate 16 4\<rparr>]"
  "strm toy_parser_short = toy_stream"
  by (simp_all add: toy_parser_short_def)

lemma toy_short_find:
  "find_id toy_parser_short 0 = Inr 0" "find_info toy_parser_short 0 = Inr (Suc 0)"
  by code_simp+

lemma toy_short_info: "take 2 (drop 78 (contents toy_stream)) = [16, 20]"
  by (simp add: toy_bytes_defs)

lemma toy_short_plain:
  "pup_decrypt (toy_X\<lparr>stack_prev_block := replicate 16 3\<rparr>) [16, 20]
     \<lparr>data_key = replicate 16 3, data_iv = replicate 16 4\<rparr> = [16, 20]"
  "pup_decrypt (toy_X\<lparr>stack_prev_block := 19 # replicate 15 3\<rparr>) [16, 20]
     \<lparr>data_key = replicate 16 3, data_iv = replicate 16 4\<rparr> = [0, 20]"
  by (simp_all add: pup_decrypt_def toy_X_def toy_cbc_decrypt_def toy_cbc_encrypt_def written_def
      array_of_def Let_def replicate_numeral)

lemma toy_short_lookup:
  "at (segEntries toy_parser_short) 0 = Inr (segEntries toy_parser_short ! 0)"
  "at (segMetas toy_parser_short) 0 = Inr (segMetas toy_parser_short ! 0)"
  "at (segEntries toy_parser_short) (Suc 0) = Inr (segEntries toy_parser_short ! Suc 0)"
  "at (segMetas toy_parser_short) (Suc 0) = Inr (segMetas toy_parser_short ! Suc 0)"
  "has_blocks (segEntries toy_parser_short ! 0)"
  "block_count (segEntries toy_parser_short ! 0) = Suc 0"
  "file_size (segEntries toy_parser_short ! 0) = 20"
  "entry_offset (segEntries toy_parser_short ! Suc 0) = 78"
  "file_size (segEntries toy_parser_short ! Suc 0) = 2"
  "is_encrypted (segEntries toy_parser_short ! Suc 0)"
  "\<not> is_compressed (segEntries toy_parser_short ! Suc 0)"
  "segMetas toy_parser_short ! Suc 0 = \<lparr>data_key = replicate 16 3, data_iv = replicate 16 4\<rparr>"
  by (simp_all add: at_def toy_short_fields)

lemma toy_short_rd:
  "stream_read (toy_stream\<lparr>position := 78\<rparr>) 2 = Inr ([16, 20], toy_stream\<lparr>position := 80\<rparr>)"
  by (simp add: stream_read_def toy_len toy_short_info)

lemma toy_short_extents:
  "read_info (toy_X\<lparr>stack_prev_block := s\<rparr>) (segEntries toy_parser_short ! Suc 0) (Suc 0) [16, 20]
     = Inr ([], [\<lparr>extent_offset = 16, extent_size = 20\<rparr>])"
  "read_info (toy_X\<lparr>stack_prev_block := s\<rparr>) (segEntries toy_parser_short ! Suc 0) (Suc 0) [0, 20]
     = Inr ([], [\<lparr>extent_offset = 0, extent_size = 20\<rparr>])"
  by (simp_all add: read_info_def toy_short_fields toy_X_fields toy_extent_def)

lemma toy_short_block:
  "process_extents (X :: 32 Extern) (segEntries toy_parser_short ! 0) (segMetas toy_parser_short ! 0)
     [\<lparr>extent_offset = 16, extent_size = 20\<rparr>] 20 [] (toy_parser_short\<lparr>strm := toy_stream\<lparr>position := 80\<rparr>\<rparr>)
   = (Inr (take 20 (drop 104 (contents toy_stream))),
      toy_parser_short\<lparr>strm := toy_stream\<lparr>position := 124\<rparr>\<rparr>)"
  "process_extents (X :: 32 Extern) (segEntries toy_parser_short ! 0) (segMetas toy_parser_short ! 0)
     [\<lparr>extent_offset = 0, extent_size = 20\<rparr>] 20 [] (toy_parser_short\<lparr>strm := toy_stream\<lparr>position := 80\<rparr>\<rparr>)
   = (Inr (take 20 (drop 88 (contents toy_stream))),
      toy_parser_short\<lparr>strm := toy_stream\<lparr>position := 108\<rparr>\<rparr>)"
  by (simp_all add: and_then_seek and_then_read stream_read_def toy_len toy_short_fields
      decrypt_block_def returns_def written_def)

lemma toy_short_get_3:
  "get (toy_X\<lparr>stack_prev_block := replicate 16 3\<rparr>) 0 toy_parser_short
     = (Inr (take 20 (drop 104 (contents toy_stream))),
        toy_parser_short\<lparr>strm := toy_stream\<lparr>position := 124\<rparr>\<rparr>)"
  unfolding get_def get_blocked_def extract_with_def and_then_lift and_then_seek and_then_read
  by (simp add: toy_short_find toy_short_lookup toy_short_fields(3) toy_short_rd toy_short_plain
      toy_short_extents toy_short_block del: process_extents.simps)

lemma toy_short_get_19:
  "get (toy_X\<lparr>stack_prev_block := 19 # replicate 15 3\<rparr>) 0 toy_parser_short
     = (Inr (take 20 (drop 88 (contents toy_stream))),
        toy_parser_short\<lparr>strm := toy_stream\<lparr>position := 108\<rparr>\<rparr>)"
  unfolding get_def get_blocked_def extract_with_def and_then_lift and_then_seek and_then_read
  by (simp add: toy_short_find toy_short_lookup toy_short_fields(3) toy_short_rd toy_short_plain
      toy_short_extents toy_short_block del: process_extents.simps)

lemma toy_blocks_differ:
  "take 20 (drop 104 (contents toy_stream)) \<noteq> take 20 (drop 88 (contents toy_stream))"
  by (simp add: toy_bytes_defs)

text \<open>
  C9 as stated fails on \<open>toy_parser_short\<close>, whose encrypted info segment has two
  bytes: \<open>pup_decrypt\<close> encrypts the uninitialised \<open>prev_block\<close>, and two calls of
  \<open>get\<close> with the same id, the second on the object the first left behind over the same
  stream contents, return different buffers when the stack holds different bytes.
\<close>

theorem repeated_get_differs_counterexample:
  "fst (get (toy_X\<lparr>stack_prev_block := replicate 16 3\<rparr>) 0 toy_parser_short)
     = Inr (take 20 (drop 104 (contents toy_stream)))
   \<and> contents (strm (snd (get (toy_X\<lparr>stack_prev_block := replicate 16 3\<rparr>) 0 toy_parser_short)))
     = contents (strm toy_parser_short)
   \<and> fst (get (toy_X\<lparr>stack_prev_block := 19 # replicate 15 3\<rparr>) 0
            (snd (get (toy_X\<lparr>stack_prev_block := replicate 16 3\<rparr>) 0 toy_parser_short)))
     = Inr (take 20 (drop 88 (contents toy_stream)))
   \<and> take 20 (drop 104 (contents toy_stream)) \<noteq> take 20 (drop 88 (contents toy_stream))"
proof -
  let ?B = "toy_X\<lparr>stack_prev_block := replicate 16 3\<rparr>"
  let ?A = "toy_X\<lparr>stack_prev_block := 19 # replicate 15 3\<rparr>"
  have f: "same_archive toy_parser_short (snd (get ?B 0 toy_parser_short))" by (rule get_frame)
  have "fst (get ?A 0 (snd (get ?B 0 toy_parser_short))) = fst (get ?A 0 toy_parser_short)"
    using get_same [OF f, of ?A 0] by simp
  then have "fst (get ?A 0 (snd (get ?B 0 toy_parser_short)))
             = Inr (take 20 (drop 88 (contents toy_stream)))"
    by (simp add: toy_short_get_19)
  then show ?thesis
    using toy_blocks_differ by (simp add: toy_short_get_3 toy_short_fields(3))
qed

end
